theory Spec2Isabelle
  imports Complex_Main "HOL-Library.Multiset"
begin

section \<open>JavaScript values and library functions used by the client\<close>

text \<open>
  The client is the React component \<open>RestClient\<close>, in two variants: \<open>Api.jsx\<close> keeps the
  history in an injected \<open>window.storage\<close> object, \<open>Api1.jsx\<close> in the browser's
  \<open>localStorage\<close>. Functions of \<open>Api.jsx\<close> keep their names here; those of \<open>Api1.jsx\<close>
  carry the suffix \<open>1\<close> where the two files differ.

  The component is single-threaded. Every \<open>async\<close> function is modelled as one
  uninterrupted state transformer, and \<open>Promise.all\<close> over an array as a map over the
  list. The operations \<open>list\<close>, \<open>set\<close> and \<open>delete\<close> of the store are taken to succeed:
  the \<open>catch\<close> blocks that only log a rejected store operation are not part of the model.
\<close>

datatype http_method = GET | POST | PUT | DELETE | PATCH | HEAD | OPTIONS

datatype json =
    JNull
  | JBool bool
  | JNumber int
  | JString string
  | JArray "json list"
  | JObject "(string \<times> json) list"

text \<open>Truthiness of a parsed JSON value, as tested by \<open>parsedBody && ...\<close>.\<close>

fun truthy :: "json \<Rightarrow> bool" where
  "truthy JNull = False"
| "truthy (JBool b) = b"
| "truthy (JNumber n) = (n \<noteq> 0)"
| "truthy (JString s) = (s \<noteq> [])"
| "truthy (JArray xs) = True"
| "truthy (JObject kvs) = True"

text \<open>A thrown \<open>Error\<close> object: the code reads its \<open>name\<close> and its \<open>message\<close>.\<close>

record js_error =
  err_name :: string
  err_message :: string

definition new_Error :: "string \<Rightarrow> js_error" where
  "new_Error msg = \<lparr>err_name = ''Error'', err_message = msg\<rparr>"

text \<open>\<open>String.prototype.startsWith\<close> and \<open>String.prototype.includes\<close>.\<close>

definition startsWith :: "string \<Rightarrow> string \<Rightarrow> bool" where
  "startsWith s p = (take (length p) s = p)"

fun js_includes :: "string \<Rightarrow> string \<Rightarrow> bool" where
  "js_includes [] sub = (sub = [])"
| "js_includes (c # cs) sub = (startsWith (c # cs) sub \<or> js_includes cs sub)"

text \<open>
  \<open>String.prototype.trim\<close>, on the ASCII white space and line terminators (a character of
  the model is a byte). JavaScript strips the other Unicode spaces too (U+00A0, U+FEFF,
  U+2028, U+2029 and the space separators), which this function keeps.
\<close>

definition is_space :: "char \<Rightarrow> bool" where
  "is_space c = (c \<in> set [CHR '' '', CHR 0x09, CHR 0x0A, CHR 0x0B, CHR 0x0C, CHR 0x0D])"

definition trim :: "string \<Rightarrow> string" where
  "trim s = rev (dropWhile is_space (rev (dropWhile is_space s)))"

text \<open>
  The decimal text of an integer, as a template literal \<open>`${n}`\<close> prints it below
  \<open>10^21\<close>; from there on JavaScript prints the exponent form. The identifiers printed
  here are readings of \<open>Date.now()\<close>, far below.
\<close>

fun decimal :: "nat \<Rightarrow> string" where
  "decimal n = (if n < 10 then [''0123456789'' ! n]
                else decimal (n div 10) @ [''0123456789'' ! (n mod 10)])"

definition String_of :: "int \<Rightarrow> string" where
  "String_of n = (if n < 0 then CHR ''-'' # decimal (nat (- n)) else decimal (nat n))"

text \<open>\<open>Math.round\<close>: the nearest integer, a tie going up.\<close>

definition Math_round :: "real \<Rightarrow> int" where
  "Math_round x = \<lfloor>x + 1 / 2\<rfloor>"

text \<open>
  \<open>Array.prototype.slice(start, end)\<close> and \<open>slice(start)\<close>: a negative index counts from
  the end, and both indices are clamped to the array.
\<close>

definition slice_index :: "int \<Rightarrow> nat \<Rightarrow> nat" where
  "slice_index i len = (if i < 0 then nat (max (int len + i) 0) else min (nat i) len)"

definition slice :: "int \<Rightarrow> int \<Rightarrow> 'a list \<Rightarrow> 'a list" where
  "slice start stop xs =
     (let k = slice_index start (length xs); final = slice_index stop (length xs)
      in take (final - k) (drop k xs))"

definition slice_from :: "int \<Rightarrow> 'a list \<Rightarrow> 'a list" where
  "slice_from start xs = drop (slice_index start (length xs)) xs"

text \<open>
  \<open>Array.prototype.sort(compare)\<close>. The sort is stable, and for a comparator that orders
  the elements consistently its result is the one stable arrangement, which insertion from
  the right computes. A comparator result \<open>NaN\<close> counts as \<open>0\<close>; where that makes the
  comparator inconsistent (an invalid date among the entries) the order is the engine's
  own and need not be the one computed here.
\<close>

fun insert_by :: "('a \<Rightarrow> 'a \<Rightarrow> int) \<Rightarrow> 'a \<Rightarrow> 'a list \<Rightarrow> 'a list" where
  "insert_by cmp x [] = [x]"
| "insert_by cmp x (y # ys) =
     (if cmp x y \<le> 0 then x # y # ys else y # insert_by cmp x ys)"

definition sort_by :: "('a \<Rightarrow> 'a \<Rightarrow> int) \<Rightarrow> 'a list \<Rightarrow> 'a list" where
  "sort_by cmp xs = foldr (insert_by cmp) xs []"

section \<open>History entries and the key-value store\<close>

text \<open>
  The \<open>headers\<close> field is the text the user typed in \<open>Api.jsx\<close> and the parsed object in
  \<open>Api1.jsx\<close>. A field is \<open>None\<close> where the object has no such property: \<open>entry_id\<close>
  before \<open>saveToHistory\<close> assigns it, \<open>duration\<close> where \<open>item.duration || 0\<close> takes the
  default. \<open>timestamp\<close> is the time value of \<open>new Date(item.timestamp)\<close> in milliseconds,
  \<open>None\<close> for an invalid date.
\<close>

datatype headers_field = HeadersText string | HeadersObject json

record entry =
  "method" :: http_method
  url :: string
  headers :: headers_field
  body :: string
  response :: string
  statusCode :: int
  duration :: "int option"
  timestamp :: "int option"
  entry_id :: "int option"

text \<open>
  What reading one record of the store yields: the read is rejected, the value is the
  empty text, \<open>JSON.parse\<close> throws on it, it parses to \<open>null\<close>, or it parses to an entry.
\<close>

datatype stored = Unreadable | Empty | Malformed | JsonNull | JsonEntry entry

type_synonym storage = "(string \<times> stored) list"

text \<open>
  The store lists its keys in the order of the list. \<open>setItem\<close> overwrites the value of a
  key that exists and adds a new key at the end; \<open>removeItem\<close> drops the key.
\<close>

fun setItem :: "storage \<Rightarrow> string \<Rightarrow> stored \<Rightarrow> storage" where
  "setItem [] k v = [(k, v)]"
| "setItem ((k', v') # rest) k v =
     (if k' = k then (k, v) # rest else (k', v') # setItem rest k v)"

definition removeItem :: "storage \<Rightarrow> string \<Rightarrow> storage" where
  "removeItem st k = filter (\<lambda>kv. fst kv \<noteq> k) st"

definition getItem :: "storage \<Rightarrow> string \<Rightarrow> stored option" where
  "getItem st k = map_of st k"

text \<open>
  \<open>window.storage.list(prefix, false)\<close>: the keys that begin with the prefix. The result
  always carries its \<open>keys\<close>, so the test \<open>result && result.keys\<close> succeeds.
\<close>

definition storage_list :: "string \<Rightarrow> storage \<Rightarrow> string list" where
  "storage_list p st = filter (\<lambda>k. startsWith k p) (map fst st)"

text \<open>\<open>getRequestKeys\<close> of \<open>Api1.jsx\<close>: the loop over \<open>localStorage.key(i)\<close>.\<close>

definition getRequestKeys :: "storage \<Rightarrow> string list" where
  "getRequestKeys st = filter (\<lambda>k. k \<noteq> [] \<and> startsWith k ''request:'') (map fst st)"

text \<open>
  The callback that reads one key: \<open>item ? JSON.parse(item.value) : null\<close> inside
  \<open>try\<close>, \<open>null\<close> from the \<open>catch\<close>. \<open>None\<close> is JavaScript's \<open>null\<close>.
\<close>

fun parse_item :: "stored option \<Rightarrow> entry option" where
  "parse_item None = None"
| "parse_item (Some Unreadable) = None"
| "parse_item (Some Empty) = None"
| "parse_item (Some Malformed) = None"
| "parse_item (Some JsonNull) = None"
| "parse_item (Some (JsonEntry e)) = Some e"

definition readKey :: "storage \<Rightarrow> string \<Rightarrow> entry option" where
  "readKey st k = parse_item (getItem st k)"

text \<open>\<open>historyData.filter(item => item !== null)\<close>.\<close>

definition non_null :: "'a option list \<Rightarrow> 'a list" where
  "non_null xs = map the (filter (\<lambda>item. item \<noteq> None) xs)"

text \<open>
  The comparator \<open>(a, b) => new Date(b.timestamp) - new Date(a.timestamp)\<close>. The
  difference is \<open>NaN\<close> when either date is invalid, which the sort reads as \<open>0\<close>.
\<close>

definition byTimestamp :: "entry \<Rightarrow> entry \<Rightarrow> int" where
  "byTimestamp a b =
     (case (timestamp b, timestamp a) of
        (Some tb, Some ta) \<Rightarrow> tb - ta
      | _ \<Rightarrow> 0)"

definition ITEMS_PER_PAGE :: int where
  "ITEMS_PER_PAGE = 20"

section \<open>Statistics (Api1.jsx)\<close>

record stats =
  total :: nat
  avgDuration :: int
  methodStats :: "(http_method \<times> nat) list"

text \<open>
  The reducer \<open>acc[item.method] = (acc[item.method] || 0) + 1\<close>. The object keeps its
  keys in the order of their first insertion, which \<open>Object.entries\<close> follows.
\<close>

fun countMethod :: "(http_method \<times> nat) list \<Rightarrow> http_method \<Rightarrow> (http_method \<times> nat) list" where
  "countMethod [] m = [(m, 1)]"
| "countMethod ((m', c) # rest) m =
     (if m' = m then (m', c + 1) # rest else (m', c) # countMethod rest m)"

definition duration_or_0 :: "entry \<Rightarrow> int" where
  "duration_or_0 item = (case duration item of None \<Rightarrow> 0 | Some d \<Rightarrow> d)"

definition byCount :: "(http_method \<times> nat) \<Rightarrow> (http_method \<times> nat) \<Rightarrow> int" where
  "byCount a b = int (snd b) - int (snd a)"

definition computeStats :: "entry list \<Rightarrow> stats" where
  "computeStats historyData =
     (if length historyData = 0 then \<lparr>total = 0, avgDuration = 0, methodStats = []\<rparr>
      else
        let n = length historyData;
            avg = Math_round
              (real_of_int (foldl (\<lambda>sum item. sum + duration_or_0 item) 0 historyData) / real n);
            methodCounts = foldl (\<lambda>acc item. countMethod acc (method item)) [] historyData;
            top = slice 0 3 (sort_by byCount methodCounts)
        in \<lparr>total = n, avgDuration = avg, methodStats = top\<rparr>)"

text \<open>A sample entry, to run the model on concrete inputs.\<close>

definition sample :: "http_method \<Rightarrow> int \<Rightarrow> int \<Rightarrow> entry" where
  "sample m d t =
     \<lparr>method = m, url = ''https://example.test/ok'', headers = HeadersText ''{}'', body = [],
      response = [], statusCode = 200, duration = Some d, timestamp = Some t,
      entry_id = Some t\<rparr>"

section \<open>The component's state\<close>

text \<open>
  The value cached for a page: \<open>{items, total, hasMore}\<close> in \<open>Api.jsx\<close>,
  \<open>{items, hasMore}\<close> in \<open>Api1.jsx\<close>.
\<close>

record page_result =
  items :: "entry list"
  cached_total :: nat
  hasMore :: bool

record page_result1 =
  items1 :: "entry list"
  hasMore1 :: bool

text \<open>What \<open>fetch(url, fetchOptions)\<close> is called with, and what it resolves to.\<close>

record fetch_call =
  fc_method :: http_method
  fc_url :: string
  fc_headers :: json
  fc_body :: "string option"

record http_response =
  status :: int
  content_type :: "string option"
  json_body :: "js_error + json"
  text_body :: "js_error + string"

text \<open>
  The \<open>useState\<close> cells and the \<open>historyCache\<close> ref of the component, the store it
  works on, and \<open>st_requests\<close>, the log of the calls of \<open>fetch\<close> made so far. The cache is
  keyed by the page number that \<open>`page_${pageNum}`\<close> prints. \<open>'c\<close> is the type of the
  cached values.
\<close>

record 'c client =
  st_storage :: storage
  st_method :: http_method
  st_url :: string
  st_headers :: string
  st_body :: string
  st_response :: string
  st_statusCode :: "int option"
  st_duration :: "int option"
  st_loading :: bool
  st_history :: "entry list"
  st_page :: int
  st_isLoadingHistory :: bool
  st_totalCount :: nat
  st_hasMore :: bool
  st_stats :: "stats option"
  st_cache :: "int \<Rightarrow> 'c option"
  st_requests :: "fetch_call list"

text \<open>
  What the browser supplies to one run of a handler: the JSON and URL parsers, the
  network, the readings of \<open>performance.now()\<close> (before validation, when \<open>fetch\<close> has
  resolved, on entry to the \<open>catch\<close> block) and of the wall clock (\<open>Date.now()\<close> and
  \<open>new Date()\<close>, in milliseconds).
\<close>

record environment =
  JSON_parse :: "string \<Rightarrow> json option"
  JSON_stringify :: "json \<Rightarrow> string"
  JSON_pretty :: "json \<Rightarrow> string"
  URL_valid :: "string \<Rightarrow> bool"
  fetch :: "fetch_call \<Rightarrow> js_error + http_response"
  perf_start :: real
  perf_responded :: real
  perf_failed :: real
  Date_now :: int
  new_Date :: int

section \<open>Loading the history\<close>

text \<open>
  The entries of the given keys, read, parsed, filtered and sorted
  (\<open>Api.jsx\<close> lines 43 to 56, \<open>Api1.jsx\<close> lines 107 to 119).
\<close>

definition sortedHistory :: "storage \<Rightarrow> string list \<Rightarrow> entry list" where
  "sortedHistory st keys = sort_by byTimestamp (non_null (map (readKey st) keys))"

text \<open>The page and its \<open>hasMoreItems\<close> flag (\<open>Api.jsx\<close> lines 61 to 64).\<close>

definition paginate :: "int \<Rightarrow> entry list \<Rightarrow> entry list \<times> bool" where
  "paginate pageNum sortedItems =
     (let startIndex = (pageNum - 1) * ITEMS_PER_PAGE;
          endIndex = startIndex + ITEMS_PER_PAGE;
          paginatedItems = slice startIndex endIndex sortedItems;
          hasMoreItems = (endIndex < int (length sortedItems))
      in (paginatedItems, hasMoreItems))"

text \<open>The value that \<open>loadHistory\<close> of \<open>Api.jsx\<close> computes and caches for a page.\<close>

definition computePage :: "storage \<Rightarrow> int \<Rightarrow> page_result" where
  "computePage st pageNum =
     (let sortedItems = sortedHistory st (storage_list ''request:'' st);
          (paginatedItems, hasMoreItems) = paginate pageNum sortedItems
      in \<lparr>items = paginatedItems, cached_total = length sortedItems, hasMore = hasMoreItems\<rparr>)"

text \<open>
  \<open>loadHistory(pageNum, append)\<close> of \<open>Api.jsx\<close>; the parameter \<open>append\<close> is
  \<open>appending\<close> here.
\<close>

definition loadHistory :: "int \<Rightarrow> bool \<Rightarrow> page_result client \<Rightarrow> page_result client" where
  "loadHistory pageNum appending s =
     (if st_cache s pageNum \<noteq> None \<and> \<not> appending then
        let cached = the (st_cache s pageNum)
        in s\<lparr>st_history := items cached, st_totalCount := cached_total cached,
             st_hasMore := hasMore cached\<rparr>
      else
        let result = computePage (st_storage s) pageNum
        in s\<lparr>st_totalCount := cached_total result,
             st_cache := (st_cache s)(pageNum \<mapsto> result),
             st_history := (if appending \<and> pageNum > 1 then st_history s @ items result
                            else items result),
             st_hasMore := hasMore result,
             st_isLoadingHistory := False\<rparr>)"

text \<open>
  \<open>loadHistory\<close> of \<open>Api1.jsx\<close>: a cache hit leaves \<open>totalCount\<close> alone, and a store
  without request keys resets the list without caching anything.
\<close>

definition loadHistory1 :: "int \<Rightarrow> bool \<Rightarrow> page_result1 client \<Rightarrow> page_result1 client" where
  "loadHistory1 pageNum appending s =
     (if st_cache s pageNum \<noteq> None \<and> \<not> appending then
        let cached = the (st_cache s pageNum)
        in s\<lparr>st_history := items1 cached, st_hasMore := hasMore1 cached\<rparr>
      else
        let keys = getRequestKeys (st_storage s) in
        if length keys = 0 then
          s\<lparr>st_history := [], st_totalCount := 0, st_hasMore := False,
            st_isLoadingHistory := False\<rparr>
        else
          let sortedItems = sortedHistory (st_storage s) keys;
              (paginatedItems, hasMoreItems) = paginate pageNum sortedItems
          in s\<lparr>st_totalCount := length sortedItems,
               st_cache := (st_cache s)(pageNum \<mapsto>
                             \<lparr>items1 = paginatedItems, hasMore1 = hasMoreItems\<rparr>),
               st_history := (if appending \<and> pageNum > 1 then st_history s @ paginatedItems
                              else paginatedItems),
               st_hasMore := hasMoreItems,
               st_isLoadingHistory := False\<rparr>)"

text \<open>
  \<open>loadStats\<close> of \<open>Api1.jsx\<close>. \<open>statsSample\<close> is its \<open>filteredData\<close>, the array handed to
  \<open>computeStats\<close> (lines 64 to 75).
\<close>

definition statsSample :: "storage \<Rightarrow> entry list" where
  "statsSample st =
     (let keys = getRequestKeys st;
          recentKeys = slice_from (- 100) keys;
          historyData = map (readKey st) recentKeys
      in non_null historyData)"

definition loadStats :: "'c client \<Rightarrow> 'c client" where
  "loadStats s =
     (let keys = getRequestKeys (st_storage s) in
      if length keys = 0 then
        s\<lparr>st_stats := Some \<lparr>total = 0, avgDuration = 0, methodStats = []\<rparr>,
          st_totalCount := 0\<rparr>
      else
        s\<lparr>st_stats := Some (computeStats (statsSample (st_storage s))),
          st_totalCount := length keys\<rparr>)"

section \<open>Changing the history\<close>

definition saveToHistory :: "environment \<Rightarrow> entry \<Rightarrow> page_result client \<Rightarrow> page_result client" where
  "saveToHistory env requestData s =
     (let timestamp = Date_now env;
          ident = ''request:'' @ String_of timestamp;
          itemWithId = requestData\<lparr>entry_id := Some timestamp\<rparr>;
          s1 = s\<lparr>st_storage := setItem (st_storage s) ident (JsonEntry itemWithId)\<rparr>;
          s2 = s1\<lparr>st_cache := Map.empty\<rparr>;
          s3 = s2\<lparr>st_page := 1\<rparr>
      in loadHistory 1 False s3)"

definition saveToHistory1 :: "environment \<Rightarrow> entry \<Rightarrow> page_result1 client \<Rightarrow> page_result1 client" where
  "saveToHistory1 env requestData s =
     (let ident = Date_now env;
          itemWithId = requestData\<lparr>entry_id := Some ident, timestamp := Some (new_Date env)\<rparr>;
          s1 = s\<lparr>st_storage :=
                  setItem (st_storage s) (''request:'' @ String_of ident) (JsonEntry itemWithId)\<rparr>;
          s2 = s1\<lparr>st_cache := Map.empty\<rparr>;
          s3 = s2\<lparr>st_page := 1\<rparr>
      in loadStats (loadHistory1 1 False s3))"

definition deleteHistoryItem :: "int \<Rightarrow> page_result client \<Rightarrow> page_result client" where
  "deleteHistoryItem ident s =
     (let key = ''request:'' @ String_of ident;
          s1 = s\<lparr>st_storage := removeItem (st_storage s) key\<rparr>;
          s2 = s1\<lparr>st_cache := Map.empty\<rparr>;
          s3 = s2\<lparr>st_page := 1\<rparr>
      in loadHistory 1 False s3)"

definition deleteHistoryItem1 :: "int \<Rightarrow> page_result1 client \<Rightarrow> page_result1 client" where
  "deleteHistoryItem1 ident s =
     (let key = ''request:'' @ String_of ident;
          s1 = s\<lparr>st_storage := removeItem (st_storage s) key\<rparr>;
          s2 = s1\<lparr>st_cache := Map.empty\<rparr>;
          s3 = s2\<lparr>st_page := 1\<rparr>
      in loadStats (loadHistory1 1 False s3))"

definition clearAllHistory :: "page_result client \<Rightarrow> page_result client" where
  "clearAllHistory s =
     (let keys = storage_list ''request:'' (st_storage s);
          s1 = s\<lparr>st_storage := foldl removeItem (st_storage s) keys\<rparr>
      in s1\<lparr>st_cache := Map.empty, st_history := [], st_totalCount := 0, st_page := 1,
            st_hasMore := False\<rparr>)"

definition clearAllHistory1 :: "page_result1 client \<Rightarrow> page_result1 client" where
  "clearAllHistory1 s =
     (let keys = getRequestKeys (st_storage s);
          s1 = s\<lparr>st_storage := foldl removeItem (st_storage s) keys\<rparr>
      in loadStats (s1\<lparr>st_cache := Map.empty, st_history := [], st_totalCount := 0,
                      st_page := 1, st_hasMore := False\<rparr>))"

definition refreshHistory :: "page_result client \<Rightarrow> page_result client" where
  "refreshHistory s = loadHistory 1 False (s\<lparr>st_cache := Map.empty, st_page := 1\<rparr>)"

definition refreshHistory1 :: "page_result1 client \<Rightarrow> page_result1 client" where
  "refreshHistory1 s =
     loadStats (loadHistory1 1 False (s\<lparr>st_cache := Map.empty, st_page := 1\<rparr>))"

section \<open>Sending a request\<close>

text \<open>
  The \<open>try\<close> block of \<open>sendRequest\<close> up to the point where the response has been
  formatted, the same in both files, over the \<open>method\<close>, \<open>url\<close>, \<open>headers\<close> and \<open>body\<close>
  of the form. It yields the calls of \<open>fetch\<close> it made and either the error thrown or the
  parsed headers, the status, the formatted response and the duration.
\<close>

definition bodyMethods :: "http_method list" where
  "bodyMethods = [POST, PUT, PATCH]"

definition tryRequest ::
  "environment \<Rightarrow> http_method \<Rightarrow> string \<Rightarrow> string \<Rightarrow> string \<Rightarrow>
     fetch_call list \<times> (js_error + json \<times> int \<times> string \<times> int)" where
  "tryRequest env reqMethod reqUrl reqHeaders reqBody =
     (case JSON_parse env reqHeaders of
        None \<Rightarrow> ([], Inl (new_Error ''Invalid JSON in headers''))
      | Some parsedHeaders \<Rightarrow>
          (case (if trim reqBody \<noteq> [] \<and> reqMethod \<in> set bodyMethods
                 then (case JSON_parse env reqBody of
                         None \<Rightarrow> Inl (new_Error ''Invalid JSON in body'')
                       | Some v \<Rightarrow> Inr (Some v))
                 else Inr None) of
             Inl e \<Rightarrow> ([], Inl e)
           | Inr parsedBody \<Rightarrow>
               if trim reqUrl = [] then ([], Inl (new_Error ''URL is required''))
               else if \<not> URL_valid env reqUrl then ([], Inl (new_Error ''Invalid URL format''))
               else
                 let fetchOptions =
                       \<lparr>fc_method = reqMethod, fc_url = reqUrl, fc_headers = parsedHeaders,
                        fc_body = (case parsedBody of
                                     None \<Rightarrow> None
                                   | Some v \<Rightarrow>
                                       if truthy v \<and> reqMethod \<in> set bodyMethods
                                       then Some (JSON_stringify env v) else None)\<rparr>
                 in (case fetch env fetchOptions of
                       Inl e \<Rightarrow> ([fetchOptions], Inl e)
                     | Inr resp \<Rightarrow>
                         let requestDuration = Math_round (perf_responded env - perf_start env);
                             responseData =
                               (case content_type resp of
                                  None \<Rightarrow> map_sum id Inr (text_body resp)
                                | Some contentType \<Rightarrow>
                                    if js_includes contentType ''application/json''
                                    then map_sum id Inl (json_body resp)
                                    else map_sum id Inr (text_body resp))
                         in (case responseData of
                               Inl e \<Rightarrow> ([fetchOptions], Inl e)
                             | Inr (Inr text) \<Rightarrow>
                                 ([fetchOptions],
                                  Inr (parsedHeaders, status resp, text, requestDuration))
                             | Inr (Inl (JString text)) \<Rightarrow>
                                 ([fetchOptions],
                                  Inr (parsedHeaders, status resp, text, requestDuration))
                             | Inr (Inl v) \<Rightarrow>
                                 ([fetchOptions],
                                  Inr (parsedHeaders, status resp, JSON_pretty env v,
                                       requestDuration))))))"

text \<open>The text of \<open>JSON.stringify({error, details, type}, null, 2)\<close> in the \<open>catch\<close> block.\<close>

definition errorResponse :: "environment \<Rightarrow> js_error \<Rightarrow> string" where
  "errorResponse env e =
     JSON_pretty env (JObject
       [(''error'', JString (err_message e)),
        (''details'', JString ''Request failed. Check console for details.''),
        (''type'', JString (err_name e))])"

text \<open>
  \<open>sendRequest\<close> of \<open>Api.jsx\<close>. In the \<open>catch\<close> block the status shown is \<open>0\<close> or \<open>400\<close>
  (line 231), and the status of the history item is the literal \<open>400\<close> (line 241).
\<close>

definition sendRequest :: "environment \<Rightarrow> page_result client \<Rightarrow> page_result client" where
  "sendRequest env s =
     (let s0 = s\<lparr>st_loading := True, st_response := [], st_statusCode := None,
                 st_duration := None\<rparr>;
          (calls, outcome) = tryRequest env (st_method s) (st_url s) (st_headers s) (st_body s);
          s1 = s0\<lparr>st_requests := st_requests s0 @ calls\<rparr>
      in case outcome of
           Inr (parsedHeaders, code, formattedResponse, requestDuration) \<Rightarrow>
             let s2 = s1\<lparr>st_response := formattedResponse, st_statusCode := Some code,
                         st_duration := Some requestDuration\<rparr>;
                 historyItem =
                   \<lparr>method = st_method s, url = st_url s, headers = HeadersText (st_headers s),
                    body = st_body s, response = formattedResponse, statusCode = code,
                    duration = Some requestDuration, timestamp = Some (new_Date env),
                    entry_id = None\<rparr>
             in (saveToHistory env historyItem s2)\<lparr>st_loading := False\<rparr>
         | Inl error \<Rightarrow>
             let requestDuration = Math_round (perf_failed env - perf_start env);
                 s2 = s1\<lparr>st_response := errorResponse env error,
                         st_statusCode :=
                           Some (if js_includes (err_message error) ''CORS'' then 0 else 400),
                         st_duration := Some requestDuration\<rparr>;
                 historyItem =
                   \<lparr>method = st_method s, url = st_url s, headers = HeadersText (st_headers s),
                    body = st_body s, response = errorResponse env error, statusCode = 400,
                    duration = Some requestDuration, timestamp = Some (new_Date env),
                    entry_id = None\<rparr>
             in (saveToHistory env historyItem s2)\<lparr>st_loading := False\<rparr>)"

text \<open>
  \<open>sendRequest\<close> of \<open>Api1.jsx\<close>: the history item carries the parsed headers (\<open>{}\<close> when
  they do not parse), \<open>saveToHistory\<close> adds the time stamp, and the status shown is \<open>0\<close>
  also for a \<open>TypeError\<close> (line 271); the status of the history item is \<open>400\<close> (line 284).
\<close>

definition sendRequest1 :: "environment \<Rightarrow> page_result1 client \<Rightarrow> page_result1 client" where
  "sendRequest1 env s =
     (let s0 = s\<lparr>st_loading := True, st_response := [], st_statusCode := None,
                 st_duration := None\<rparr>;
          (calls, outcome) = tryRequest env (st_method s) (st_url s) (st_headers s) (st_body s);
          s1 = s0\<lparr>st_requests := st_requests s0 @ calls\<rparr>
      in case outcome of
           Inr (parsedHeaders, code, formattedResponse, requestDuration) \<Rightarrow>
             let s2 = s1\<lparr>st_response := formattedResponse, st_statusCode := Some code,
                         st_duration := Some requestDuration\<rparr>;
                 historyItem =
                   \<lparr>method = st_method s, url = st_url s, headers = HeadersObject parsedHeaders,
                    body = st_body s, response = formattedResponse, statusCode = code,
                    duration = Some requestDuration, timestamp = None, entry_id = None\<rparr>
             in (saveToHistory1 env historyItem s2)\<lparr>st_loading := False\<rparr>
         | Inl error \<Rightarrow>
             let requestDuration = Math_round (perf_failed env - perf_start env);
                 s2 = s1\<lparr>st_response := errorResponse env error,
                         st_statusCode :=
                           Some (if js_includes (err_message error) ''CORS''
                                    \<or> err_name error = ''TypeError'' then 0 else 400),
                         st_duration := Some requestDuration\<rparr>;
                 parsedHeaders =
                   (case JSON_parse env (st_headers s) of None \<Rightarrow> JObject [] | Some v \<Rightarrow> v);
                 historyItem =
                   \<lparr>method = st_method s, url = st_url s, headers = HeadersObject parsedHeaders,
                    body = st_body s, response = errorResponse env error, statusCode = 400,
                    duration = Some requestDuration, timestamp = None, entry_id = None\<rparr>
             in (saveToHistory1 env historyItem s2)\<lparr>st_loading := False\<rparr>)"

section \<open>Notions used to state the properties\<close>

text \<open>
  The state of a freshly mounted component (the \<open>useState\<close> defaults and an empty cache)
  over an empty store. The headers are the default text of \<open>Api.jsx\<close>; that of \<open>Api1.jsx\<close>
  indents by one space instead of two and parses to the same object.
\<close>

definition initial :: "'c client" where
  "initial =
     \<lparr>st_storage = [], st_method = GET,
      st_url = ''https://jsonplaceholder.typicode.com/posts/1'',
      st_headers = ''{'' @ [CHR 0x0A] @ ''  \"Content-Type\": \"application/json\"'' @ [CHR 0x0A] @ ''}'',
      st_body = [], st_response = [], st_statusCode = None, st_duration = None,
      st_loading = False, st_history = [], st_page = 1, st_isLoadingHistory = False,
      st_totalCount = 0, st_hasMore = False, st_stats = None, st_cache = Map.empty,
      st_requests = []\<rparr>"

text \<open>
  The entries that a load keeps after \<open>filter(item => item !== null)\<close>, in key order,
  before they are sorted.
\<close>

definition parsedEntries :: "storage \<Rightarrow> entry list" where
  "parsedEntries st = non_null (map (readKey st) (storage_list ''request:'' st))"

text \<open>Newest first: both time stamps are valid dates and the later one comes first.\<close>

definition newer_or_same :: "entry \<Rightarrow> entry \<Rightarrow> bool" where
  "newer_or_same a b =
     (case (timestamp a, timestamp b) of (Some ta, Some tb) \<Rightarrow> tb \<le> ta | _ \<Rightarrow> False)"

definition newestFirst :: "entry list \<Rightarrow> bool" where
  "newestFirst xs = sorted_wrt newer_or_same xs"

text \<open>
  The page that \<open>loadHistory\<close> of \<open>Api1.jsx\<close> computes, and for both files the cache
  holding nothing but pages computed from the present content of the store.
\<close>

definition computePage1 :: "storage \<Rightarrow> int \<Rightarrow> page_result1" where
  "computePage1 st pageNum =
     (let sortedItems = sortedHistory st (getRequestKeys st);
          (paginatedItems, hasMoreItems) = paginate pageNum sortedItems
      in \<lparr>items1 = paginatedItems, hasMore1 = hasMoreItems\<rparr>)"

definition cacheFresh :: "page_result client \<Rightarrow> bool" where
  "cacheFresh s = (\<forall>p r. st_cache s p = Some r \<longrightarrow> r = computePage (st_storage s) p)"

definition cacheFresh1 :: "page_result1 client \<Rightarrow> bool" where
  "cacheFresh1 s = (\<forall>p r. st_cache s p = Some r \<longrightarrow> r = computePage1 (st_storage s) p)"

text \<open>
  The four checks that \<open>sendRequest\<close> makes before it calls \<open>fetch\<close>: one of them throws.
\<close>

definition validationFails :: "environment \<Rightarrow> 'c client \<Rightarrow> bool" where
  "validationFails env s =
     (JSON_parse env (st_headers s) = None
      \<or> (trim (st_body s) \<noteq> [] \<and> st_method s \<in> set bodyMethods
          \<and> JSON_parse env (st_body s) = None)
      \<or> trim (st_url s) = []
      \<or> \<not> URL_valid env (st_url s))"

text \<open>
  A list \<open>h\<close> is the newest page of the entries \<open>es\<close>: it is ordered newest first, it
  holds entries of \<open>es\<close>, each as often as \<open>es\<close> at most, it holds 20 of them or all if
  there are fewer, and no entry left out is newer than one on the page.
\<close>

definition newestPage :: "entry list \<Rightarrow> entry list \<Rightarrow> bool" where
  "newestPage h es =
     (newestFirst h \<and> mset h \<subseteq># mset es \<and> length h = min 20 (length es) \<and>
      (\<forall>x \<in> set h. \<forall>e \<in># mset es - mset h. newer_or_same x e))"

text \<open>
  A store to run the model on: three entries saved out of order, a record that does not
  parse, a record holding \<open>null\<close>, and a key that is not a request.
\<close>

definition exampleStore :: storage where
  "exampleStore =
     [(''request:1000'', JsonEntry (sample GET 100 1000)),
      (''request:1500'', Malformed),
      (''request:3000'', JsonEntry (sample POST 200 3000)),
      (''theme'', Malformed),
      (''request:2000'', JsonEntry (sample GET 300 2000)),
      (''request:2500'', JsonNull)]"

text \<open>
  Stores with more records than a page and than the statistics window hold: 22 and 102
  entries, saved in the order of their time stamps.
\<close>

definition bigStore :: storage where
  "bigStore = map (\<lambda>i. (''request:'' @ String_of i, JsonEntry (sample GET 1 i))) [1..22]"

definition manyStore :: storage where
  "manyStore = map (\<lambda>i. (''request:'' @ String_of i, JsonEntry (sample GET i i))) [1..102]"







text \<open>
  A state whose cache holds, for page 1, a result that the present store does not give.
\<close>

definition staleState :: "page_result client" where
  "staleState =
     initial\<lparr>st_storage := exampleStore,
             st_cache := [1 \<mapsto> \<lparr>items = [sample DELETE 9 9], cached_total = 1, hasMore = True\<rparr>]\<rparr>"

definition staleState1 :: "page_result1 client" where
  "staleState1 =
     initial\<lparr>st_storage := exampleStore,
             st_cache := [1 \<mapsto> \<lparr>items1 = [sample DELETE 9 9], hasMore1 = True\<rparr>]\<rparr>"

text \<open>The error that the first failing check of \<open>sendRequest\<close> throws.\<close>

definition validationError :: "environment \<Rightarrow> 'c client \<Rightarrow> js_error" where
  "validationError env s =
     new_Error
       (if JSON_parse env (st_headers s) = None then ''Invalid JSON in headers''
        else if trim (st_body s) \<noteq> [] \<and> st_method s \<in> set bodyMethods
                \<and> JSON_parse env (st_body s) = None then ''Invalid JSON in body''
        else if trim (st_url s) = [] then ''URL is required''
        else ''Invalid URL format'')"

text \<open>
  A browser without network, to run \<open>sendRequest\<close> in: \<open>fetch\<close> rejects with the
  \<open>TypeError\<close> that browsers throw when no response arrives. Its JSON parser knows the
  default headers and the empty object, its printer is left abstract, and its clocks read
  1000 ms, 1200 ms and 1250 ms on the performance clock and 4000 ms on the wall clock.
\<close>

definition offlineEnv :: environment where
  "offlineEnv =
     \<lparr>JSON_parse = (\<lambda>text.
        if text = ''{}'' then Some (JObject [])
        else if text = st_headers (initial :: unit client)
        then Some (JObject [(''Content-Type'', JString ''application/json'')])
        else None),
      JSON_stringify = (\<lambda>v. ''{}''),
      JSON_pretty = (\<lambda>v. ''{}''),
      URL_valid = (\<lambda>text. startsWith text ''https://''),
      fetch = (\<lambda>call. Inl \<lparr>err_name = ''TypeError'', err_message = ''Failed to fetch''\<rparr>),
      perf_start = 1000, perf_responded = 1200, perf_failed = 1250,
      Date_now = 4000, new_Date = 4000\<rparr>"

text \<open>Every entry that the store holds carries a valid date.\<close>

fun dated :: "stored \<Rightarrow> bool" where
  "dated (JsonEntry e) = (timestamp e \<noteq> None)"
| "dated v = True"

definition storeDated :: "storage \<Rightarrow> bool" where
  "storeDated st = list_all (\<lambda>kv. dated (snd kv)) st"

section \<open>Properties of the library functions\<close>

text \<open>
  \<open>Math.round\<close> of a quotient of integers in integer arithmetic, the slice that starts
  at 0, and the sort: it permutes its input, and it orders it by a key when the
  comparator decides by that key on the elements of the list.
\<close>

lemma foldl_duration_sum:
  "foldl (\<lambda>sum item. sum + duration_or_0 item) a xs = a + sum_list (map duration_or_0 xs)"
  by (induction xs arbitrary: a) auto

lemma Math_round_div:
  assumes "0 < n"
  shows "Math_round (real_of_int s / real n) = (2 * s + int n) div (2 * int n)"
proof -
  have "real_of_int s / real n + 1 / 2 = real_of_int (2 * s + int n) / real_of_int (2 * int n)"
    using assms by (simp add: field_simps)
  then show ?thesis
    unfolding Math_round_def by (simp only: floor_divide_of_int_eq)
qed

lemma slice_0: "0 \<le> k \<Longrightarrow> slice 0 k xs = take (nat k) xs"
  by (simp add: slice_def slice_index_def Let_def min_def)

lemma mset_insert_by: "mset (insert_by cmp x xs) = add_mset x (mset xs)"
  by (induction xs) auto

lemma mset_sort_by: "mset (sort_by cmp xs) = mset xs"
  by (induction xs) (auto simp: sort_by_def mset_insert_by)

lemma set_insert_by: "set (insert_by cmp x xs) = insert x (set xs)"
  by (induction xs) auto

lemma sort_by_Nil: "sort_by cmp [] = []"
  by (simp add: sort_by_def)

lemma sort_by_Cons: "sort_by cmp (x # xs) = insert_by cmp x (sort_by cmp xs)"
  by (simp add: sort_by_def)

lemma sorted_insert_by:
  assumes key: "\<And>y. y \<in> set xs \<Longrightarrow> cmp x y \<le> 0 \<longleftrightarrow> key y \<le> (key x :: int)"
  shows "sorted_wrt (\<lambda>a b. key b \<le> key a) xs \<Longrightarrow>
    sorted_wrt (\<lambda>a b. key b \<le> key a) (insert_by cmp x xs)"
  using key
proof (induction xs)
  case Nil
  then show ?case by simp
next
  case (Cons y ys)
  have xy: "cmp x y \<le> 0 \<longleftrightarrow> key y \<le> key x"
    using Cons.prems(2) by simp
  show ?case
  proof (cases "cmp x y \<le> 0")
    case True
    with Cons.prems(1) xy show ?thesis by (auto intro: order_trans)
  next
    case False
    have "sorted_wrt (\<lambda>a b. key b \<le> key a) (insert_by cmp x ys)"
      using Cons.IH Cons.prems by simp
    with False Cons.prems(1) xy show ?thesis by (auto simp: set_insert_by)
  qed
qed

lemma sorted_sort_by:
  assumes key: "\<And>a b. a \<in> set xs \<Longrightarrow> b \<in> set xs \<Longrightarrow>
                  cmp a b \<le> 0 \<longleftrightarrow> key b \<le> (key a :: int)"
  shows "sorted_wrt (\<lambda>a b. key b \<le> key a) (sort_by cmp xs)"
  using key
proof (induction xs)
  case Nil
  show ?case by (simp add: sort_by_Nil)
next
  case (Cons x xs)
  have "sorted_wrt (\<lambda>a b. key b \<le> key a) (sort_by cmp xs)"
    using Cons by simp
  moreover have "\<And>y. y \<in> set (sort_by cmp xs) \<Longrightarrow> cmp x y \<le> 0 \<longleftrightarrow> key y \<le> key x"
    using Cons.prems mset_eq_setD[OF mset_sort_by, of cmp xs] by simp
  ultimately show ?case
    unfolding sort_by_Cons by (intro sorted_insert_by)
qed

lemma filter_insert_by_other:
  "\<not> P x \<Longrightarrow> filter P (insert_by cmp x xs) = filter P xs"
  by (induction xs) auto

text \<open>
  The sort is stable: entries with the same key keep the order they had.
\<close>
lemma filter_insert_by_same:
  assumes key: "\<And>a b. cmp a b \<le> 0 \<longleftrightarrow> key b \<le> (key a :: int)"
  shows "filter (\<lambda>y. key y = key x) (insert_by cmp x xs) = x # filter (\<lambda>y. key y = key x) xs"
proof (induction xs)
  case Nil
  then show ?case by simp
next
  case (Cons y ys)
  show ?case
  proof (cases "cmp x y \<le> 0")
    case True
    then show ?thesis by simp
  next
    case False
    then have "key x < key y" using key[of x y] by simp
    with False Cons show ?thesis by auto
  qed
qed

lemma sort_by_stable:
  assumes key: "\<And>a b. cmp a b \<le> 0 \<longleftrightarrow> key b \<le> (key a :: int)"
  shows "filter (\<lambda>y. key y = k) (sort_by cmp xs) = filter (\<lambda>y. key y = k) xs"
proof (induction xs)
  case Nil show ?case by (simp add: sort_by_Nil)
next
  case (Cons x xs)
  show ?case
  proof (cases "key x = k")
    case True
    have "filter (\<lambda>y. key y = key x) (insert_by cmp x (sort_by cmp xs))
        = x # filter (\<lambda>y. key y = key x) (sort_by cmp xs)"
      by (rule filter_insert_by_same[OF key])
    with True Cons show ?thesis by (simp add: sort_by_Cons)
  next
    case False
    with Cons show ?thesis by (simp add: sort_by_Cons filter_insert_by_other)
  qed
qed

lemma startsWith_nonempty: "startsWith k ''request:'' \<Longrightarrow> k \<noteq> []"
  by (auto simp: startsWith_def)

lemma getRequestKeys_eq: "getRequestKeys st = storage_list ''request:'' st"
  unfolding getRequestKeys_def storage_list_def
  by (rule filter_cong) (auto dest: startsWith_nonempty)

lemma slice_index_nonneg: "0 \<le> i \<Longrightarrow> slice_index i len = min (nat i) len"
  by (simp add: slice_index_def)

lemma slice_window:
  assumes "0 \<le> a"
  shows "slice a (a + int k) xs = take k (drop (nat a) xs)"
proof -
  have e: "nat (a + int k) = nat a + k" using assms by simp
  have "take (min (nat a + k) (length xs) - min (nat a) (length xs)) (drop (min (nat a) (length xs)) xs)
        = take k (drop (nat a) xs)"
  proof (cases "nat a \<le> length xs")
    case True
    then have m: "min (nat a) (length xs) = nat a" by simp
    show ?thesis
    proof (cases "nat a + k \<le> length xs")
      case True
      with m show ?thesis by simp
    next
      case False
      then have "min (nat a + k) (length xs) = length xs" by simp
      moreover have "length (drop (nat a) xs) \<le> k" using False by simp
      ultimately show ?thesis using m by simp
    qed
  next
    case False
    then show ?thesis by simp
  qed
  then show ?thesis
    using assms by (simp add: slice_def Let_def slice_index_nonneg e)
qed

lemma paginate_eq:
  assumes "1 \<le> p"
  shows "paginate p xs = (take 20 (drop (20 * nat (p - 1)) xs), p * 20 < int (length xs))"
proof -
  have "slice ((p - 1) * 20) ((p - 1) * 20 + int 20) xs = take 20 (drop (nat ((p - 1) * 20)) xs)"
    using assms by (intro slice_window) simp
  moreover have "nat ((p - 1) * 20) = 20 * nat (p - 1)" using assms by simp
  moreover have "(p - 1) * 20 + 20 = p * 20" by (simp add: algebra_simps)
  ultimately show ?thesis
    by (simp add: paginate_def ITEMS_PER_PAGE_def Let_def)
qed

lemma paginate_hasMore: "snd (paginate p xs) = (p * 20 < int (length xs))"
  by (simp add: paginate_def ITEMS_PER_PAGE_def Let_def algebra_simps)

lemma concat_windows:
  "concat (map (\<lambda>i. take k (drop (k * i) xs)) [0..<n]) = take (k * n) xs"
proof (induction n)
  case 0
  show ?case by simp
next
  case (Suc n)
  have "take (k * n) xs @ take k (drop (k * n) xs) = take (k * n + k) xs"
    by (simp add: take_add)
  with Suc show ?case by (simp add: add.commute)
qed

section \<open>Statistics: correctness of \<open>computeStats\<close>\<close>

definition count_of :: "(http_method \<times> nat) list \<Rightarrow> http_method \<Rightarrow> nat" where
  "count_of acc m = (case map_of acc m of None \<Rightarrow> 0 | Some c \<Rightarrow> c)"

lemma map_of_countMethod:
  "map_of (countMethod acc m) m' =
     (if m' = m then Some (case map_of acc m of None \<Rightarrow> 1 | Some c \<Rightarrow> c + 1) else map_of acc m')"
  by (induction acc m rule: countMethod.induct) auto

lemma keys_countMethod:
  "map fst (countMethod acc m) = (if m \<in> fst ` set acc then map fst acc else map fst acc @ [m])"
  by (induction acc m rule: countMethod.induct) (auto simp: image_iff)

lemma distinct_countMethod:
  "distinct (map fst acc) \<Longrightarrow> distinct (map fst (countMethod acc m))"
  by (simp add: keys_countMethod)

lemma methodCounts_fold:
  assumes "distinct (map fst acc)"
  shows "distinct (map fst (foldl (\<lambda>acc item. countMethod acc (method item)) acc xs))
       \<and> fst ` set (foldl (\<lambda>acc item. countMethod acc (method item)) acc xs) = fst ` set acc \<union> method ` set xs
       \<and> (\<forall>m. (case map_of (foldl (\<lambda>acc item. countMethod acc (method item)) acc xs) m of None \<Rightarrow> 0 | Some c \<Rightarrow> c)
             = (case map_of acc m of None \<Rightarrow> 0 | Some c \<Rightarrow> c) + length (filter (\<lambda>item. method item = m) xs))"
  using assms
proof (induction xs arbitrary: acc)
  case Nil
  then show ?case by simp
next
  case (Cons x xs)
  have d: "distinct (map fst (countMethod acc (method x)))"
    using Cons.prems by (rule distinct_countMethod)
  have k: "fst ` set (countMethod acc (method x)) = insert (method x) (fst ` set acc)"
    using keys_countMethod[of acc "method x"]
    by (metis (no_types, lifting) insert_absorb list.set_map set_append Un_insert_right
        list.simps(15) sup_bot.right_neutral empty_set)
  show ?case
    using Cons.IH[OF d] k
    by (auto simp: map_of_countMethod split: option.splits)
qed

lemma byCount_key: "byCount a b \<le> 0 \<longleftrightarrow> int (snd b) \<le> int (snd a)"
  by (simp add: byCount_def)

lemma methodStats_eq:
  "historyData \<noteq> [] \<Longrightarrow> methodStats (computeStats historyData) =
     take 3 (sort_by byCount (foldl (\<lambda>acc item. countMethod acc (method item)) [] historyData))"
  by (simp add: computeStats_def Let_def slice_0)

lemma methodStats_props:
  fixes historyData :: "entry list"
  defines "occ \<equiv> \<lambda>m. length (filter (\<lambda>item. method item = m) historyData)"
  defines "ms \<equiv> methodStats (computeStats historyData)"
  assumes ne: "historyData \<noteq> []"
  shows "sorted_wrt (\<lambda>a b. snd b \<le> snd a) ms"
    and "distinct (map fst ms)"
    and "length ms = min 3 (card (method ` set historyData))"
    and "\<forall>p \<in> set ms. fst p \<in> method ` set historyData \<and> snd p = occ (fst p)"
    and "\<forall>m \<in> method ` set historyData. m \<notin> fst ` set ms \<longrightarrow> (\<forall>p \<in> set ms. occ m \<le> snd p)"
proof -
  define counts where "counts = foldl (\<lambda>acc item. countMethod acc (method item)) [] historyData"
  define sorted where "sorted = sort_by byCount counts"
  have ms: "ms = take 3 sorted"
    unfolding ms_def sorted_def counts_def using ne by (rule methodStats_eq)
  from methodCounts_fold[of "[]" historyData]
  have dist: "distinct (map fst counts)"
    and keys: "fst ` set counts = method ` set historyData"
    and cnt: "\<And>m. (case map_of counts m of None \<Rightarrow> 0 | Some c \<Rightarrow> c) = occ m"
    unfolding counts_def occ_def by simp_all
  have perm: "mset sorted = mset counts"
    unfolding sorted_def by (rule mset_sort_by)
  then have set_eq: "set sorted = set counts" by (rule mset_eq_setD)
  have "mset (map fst sorted) = mset (map fst counts)" using perm by (metis mset_map)
  then have dist_sorted: "distinct (map fst sorted)"
    using dist by (metis mset_eq_imp_distinct_iff)
  have srt: "sorted_wrt (\<lambda>a b. int (snd b) \<le> int (snd a)) sorted"
    unfolding sorted_def by (rule sorted_sort_by) (simp add: byCount_key)
  then have srt': "sorted_wrt (\<lambda>a b. snd b \<le> snd a) sorted" by simp
  have val: "snd p = occ (fst p)" if "p \<in> set counts" for p
  proof -
    have "map_of counts (fst p) = Some (snd p)"
      using dist that by (metis map_of_eq_Some_iff prod.collapse)
    with cnt[of "fst p"] show ?thesis by simp
  qed
  show "sorted_wrt (\<lambda>a b. snd b \<le> snd a) ms"
    unfolding ms using srt' by (metis append_take_drop_id sorted_wrt_append)
  show "distinct (map fst ms)"
    unfolding ms using dist_sorted by (simp add: take_map[symmetric])
  have "length sorted = card (method ` set historyData)"
    using dist_sorted keys set_eq by (metis distinct_card length_map list.set_map)
  then show "length ms = min 3 (card (method ` set historyData))"
    unfolding ms by (simp add: min.commute)
  show "\<forall>p \<in> set ms. fst p \<in> method ` set historyData \<and> snd p = occ (fst p)"
  proof
    fix p assume "p \<in> set ms"
    then have "p \<in> set counts" unfolding ms using set_eq by (metis in_set_takeD)
    then show "fst p \<in> method ` set historyData \<and> snd p = occ (fst p)"
      using keys val by (metis imageI)
  qed
  show "\<forall>m \<in> method ` set historyData. m \<notin> fst ` set ms \<longrightarrow> (\<forall>p \<in> set ms. occ m \<le> snd p)"
  proof (intro ballI impI)
    fix m p
    assume m: "m \<in> method ` set historyData" and out: "m \<notin> fst ` set ms" and p: "p \<in> set ms"
    from m keys set_eq obtain q where q: "q \<in> set sorted" "fst q = m"
      by (metis imageE)
    have "q \<notin> set (take 3 sorted)" using out q(2) unfolding ms by (metis imageI)
    moreover have "set sorted = set (take 3 sorted) \<union> set (drop 3 sorted)"
      by (metis append_take_drop_id set_append)
    ultimately have qd: "q \<in> set (drop 3 sorted)" using q(1) by blast
    have "sorted_wrt (\<lambda>a b. snd b \<le> snd a) (take 3 sorted @ drop 3 sorted)"
      using srt' by simp
    then have "snd q \<le> snd p"
      using qd p unfolding ms sorted_wrt_append by blast
    moreover have "snd q = occ m" using val[of q] q set_eq by simp
    ultimately show "occ m \<le> snd p" by simp
  qed
qed

text \<open>
  Claim C7. \<open>computeStats\<close> on the empty list returns total 0, average 0 and no method
  statistics. On a non-empty list the total is the length of the list, the average is the
  rounded arithmetic mean of the durations (a missing duration counting as 0), and the
  method statistics are at most three pairs of a method and the number of its entries, of
  distinct methods, sorted by count descending, no method left out having more entries
  than one that is listed.
\<close>

theorem computeStats_correct:
  "computeStats [] = \<lparr>total = 0, avgDuration = 0, methodStats = []\<rparr> \<and>
   (historyData \<noteq> [] \<longrightarrow>
      total (computeStats historyData) = length historyData \<and>
      avgDuration (computeStats historyData) =
        Math_round (real_of_int (sum_list (map duration_or_0 historyData)) / real (length historyData)) \<and>
      sorted_wrt (\<lambda>a b. snd b \<le> snd a) (methodStats (computeStats historyData)) \<and>
      distinct (map fst (methodStats (computeStats historyData))) \<and>
      length (methodStats (computeStats historyData)) = min 3 (card (method ` set historyData)) \<and>
      (\<forall>p \<in> set (methodStats (computeStats historyData)).
         fst p \<in> method ` set historyData \<and>
         snd p = length (filter (\<lambda>item. method item = fst p) historyData)) \<and>
      (\<forall>m \<in> method ` set historyData. m \<notin> fst ` set (methodStats (computeStats historyData)) \<longrightarrow>
         (\<forall>p \<in> set (methodStats (computeStats historyData)).
            length (filter (\<lambda>item. method item = m) historyData) \<le> snd p)))"
proof -
  have empty: "computeStats [] = \<lparr>total = 0, avgDuration = 0, methodStats = []\<rparr>"
    by (simp add: computeStats_def)
  have nonempty: ?thesis if ne: "historyData \<noteq> []"
  proof -
    have t: "total (computeStats historyData) = length historyData"
      using ne by (simp add: computeStats_def Let_def)
    have a: "avgDuration (computeStats historyData) =
        Math_round (real_of_int (sum_list (map duration_or_0 historyData)) / real (length historyData))"
      using ne by (simp add: computeStats_def Let_def foldl_duration_sum)
    note p = methodStats_props[OF ne]
    show ?thesis
      apply (intro conjI impI)
             apply (rule empty)
            apply (rule t)
           apply (rule a)
          apply (rule p(1))
         apply (rule p(2))
        apply (rule p(3))
       apply (rule p(4))
      apply (rule p(5))
      done
  qed
  show ?thesis
  proof (cases "historyData = []")
    case True
    with empty show ?thesis by simp
  next
    case False
    then show ?thesis by (rule nonempty)
  qed
qed

theorem computeStats_correct_witness:
  "[sample GET 100 1, sample POST 200 2, sample GET 300 3] \<noteq> [] \<and>
   total (computeStats [sample GET 100 1, sample POST 200 2, sample GET 300 3]) = 3 \<and>
   avgDuration (computeStats [sample GET 100 1, sample POST 200 2, sample GET 300 3]) = 200 \<and>
   length (methodStats (computeStats [sample GET 100 1, sample POST 200 2, sample GET 300 3])) = 2"
proof -
  let ?xs = "[sample GET 100 1, sample POST 200 2, sample GET 300 3]"
  have ne: "?xs \<noteq> []" by simp
  have m: "method ` set ?xs = {GET, POST}" by (auto simp: sample_def)
  have a: "Math_round (real_of_int (sum_list (map duration_or_0 ?xs)) / real (length ?xs)) = 200"
    by (simp add: Math_round_div[of 3 600, simplified] sample_def duration_or_0_def)
  from computeStats_correct[of ?xs] ne
  have "total (computeStats ?xs) = length ?xs"
    and "avgDuration (computeStats ?xs) = Math_round (real_of_int (sum_list (map duration_or_0 ?xs)) / real (length ?xs))"
    and "length (methodStats (computeStats ?xs)) = min 3 (card (method ` set ?xs))"
    by blast+
  with a m ne show ?thesis by simp
qed

section \<open>Loading a page\<close>

lemma length_sort_by: "length (sort_by cmp xs) = length xs"
  by (metis mset_sort_by size_mset)

lemma sortedHistory_parsed:
  "sortedHistory st (storage_list ''request:'' st) = sort_by byTimestamp (parsedEntries st)"
  by (simp add: sortedHistory_def parsedEntries_def)

lemma computePage_eq:
  "computePage st p =
     \<lparr>items = fst (paginate p (sort_by byTimestamp (parsedEntries st))),
      cached_total = length (parsedEntries st),
      hasMore = snd (paginate p (sort_by byTimestamp (parsedEntries st)))\<rparr>"
  by (simp add: computePage_def sortedHistory_parsed Let_def length_sort_by split: prod.splits)

lemma computePage1_eq:
  "computePage1 st p =
     \<lparr>items1 = fst (paginate p (sort_by byTimestamp (parsedEntries st))),
      hasMore1 = snd (paginate p (sort_by byTimestamp (parsedEntries st)))\<rparr>"
  by (simp add: computePage1_def getRequestKeys_eq sortedHistory_parsed Let_def split: prod.splits)

lemma storage_loadHistory: "st_storage (loadHistory p a s) = st_storage s"
  by (simp add: loadHistory_def Let_def)

lemma storage_loadHistory1: "st_storage (loadHistory1 p a s) = st_storage s"
  by (simp add: loadHistory1_def Let_def split: prod.splits)

lemma storage_loadStats: "st_storage (loadStats s) = st_storage s"
  by (simp add: loadStats_def Let_def)

lemma cache_loadStats: "st_cache (loadStats s) = st_cache s"
  by (simp add: loadStats_def Let_def)

lemma cacheFresh1_loadStats: "cacheFresh1 (loadStats s) = cacheFresh1 s"
  by (simp add: cacheFresh1_def storage_loadStats cache_loadStats)

text \<open>What a load does when the cache is fresh: a hit and a miss give the same page.\<close>

lemma loadHistory_fresh:
  assumes "cacheFresh s"
  shows "st_history (loadHistory p a s) =
           (if a \<and> p > 1 then st_history s @ items (computePage (st_storage s) p)
            else items (computePage (st_storage s) p))"
    and "st_hasMore (loadHistory p a s) = hasMore (computePage (st_storage s) p)"
    and "st_totalCount (loadHistory p a s) = cached_total (computePage (st_storage s) p)"
    and "cacheFresh (loadHistory p a s)"
proof -
  show "st_history (loadHistory p a s) =
           (if a \<and> p > 1 then st_history s @ items (computePage (st_storage s) p)
            else items (computePage (st_storage s) p))"
    using assms by (auto simp: loadHistory_def Let_def cacheFresh_def)
  show "st_hasMore (loadHistory p a s) = hasMore (computePage (st_storage s) p)"
    using assms by (auto simp: loadHistory_def Let_def cacheFresh_def)
  show "st_totalCount (loadHistory p a s) = cached_total (computePage (st_storage s) p)"
    using assms by (auto simp: loadHistory_def Let_def cacheFresh_def)
  show "cacheFresh (loadHistory p a s)"
    using assms by (auto simp: loadHistory_def Let_def cacheFresh_def)
qed

lemma parsedEntries_empty_keys:
  "getRequestKeys st = [] \<Longrightarrow> parsedEntries st = []"
  by (simp add: parsedEntries_def getRequestKeys_eq non_null_def)

lemma paginate_Nil: "0 \<le> p \<Longrightarrow> paginate p [] = ([], False)"
  by (simp add: paginate_def Let_def slice_def ITEMS_PER_PAGE_def)

lemma computePage1_empty:
  "getRequestKeys st = [] \<Longrightarrow> 0 \<le> p \<Longrightarrow> computePage1 st p = \<lparr>items1 = [], hasMore1 = False\<rparr>"
  by (simp add: computePage1_eq parsedEntries_empty_keys sort_by_Nil paginate_Nil)

lemma loadHistory1_fresh:
  assumes "cacheFresh1 s" and "0 \<le> p"
  shows "st_history (loadHistory1 p False s) = items1 (computePage1 (st_storage s) p)"
    and "st_hasMore (loadHistory1 p a s) = hasMore1 (computePage1 (st_storage s) p)"
    and "cacheFresh1 (loadHistory1 p a s)"
proof -
  have hit: "st_cache s p \<noteq> None \<Longrightarrow> the (st_cache s p) = computePage1 (st_storage s) p"
    using assms(1) by (auto simp: cacheFresh1_def)
  show "st_history (loadHistory1 p False s) = items1 (computePage1 (st_storage s) p)"
    using hit computePage1_empty[OF _ assms(2), of "st_storage s"]
    by (auto simp: loadHistory1_def Let_def computePage1_def split: prod.splits)
  show "st_hasMore (loadHistory1 p a s) = hasMore1 (computePage1 (st_storage s) p)"
    using hit computePage1_empty[OF _ assms(2), of "st_storage s"]
    by (auto simp: loadHistory1_def Let_def computePage1_def split: prod.splits)
  show "cacheFresh1 (loadHistory1 p a s)"
    using assms(1)
    by (auto simp: loadHistory1_def Let_def cacheFresh1_def computePage1_def split: prod.splits)
qed

lemma byTimestamp_valid:
  "timestamp a \<noteq> None \<Longrightarrow> timestamp b \<noteq> None \<Longrightarrow>
     byTimestamp a b \<le> 0 \<longleftrightarrow> the (timestamp b) \<le> the (timestamp a)"
  by (auto simp: byTimestamp_def)

lemma newestFirst_sort_by:
  assumes "\<forall>e \<in> set xs. timestamp e \<noteq> None"
  shows "newestFirst (sort_by byTimestamp xs)"
proof -
  have srt: "sorted_wrt (\<lambda>a b. the (timestamp b) \<le> the (timestamp a)) (sort_by byTimestamp xs)"
    by (rule sorted_sort_by) (use assms in \<open>simp add: byTimestamp_valid\<close>)
  have set_eq: "set (sort_by byTimestamp xs) = set xs"
    by (rule mset_eq_setD) (rule mset_sort_by)
  have "sorted_wrt newer_or_same (sort_by byTimestamp xs)"
  proof (rule sorted_wrt_mono_rel[OF _ srt])
    fix x y
    assume "x \<in> set (sort_by byTimestamp xs)" and "y \<in> set (sort_by byTimestamp xs)"
      and "the (timestamp y) \<le> the (timestamp x)"
    then have "x \<in> set xs" and "y \<in> set xs" and le: "the (timestamp y) \<le> the (timestamp x)"
      using set_eq by simp_all
    then obtain tx ty where "timestamp x = Some tx" and "timestamp y = Some ty"
      using assms by blast
    with le show "newer_or_same x y"
      by (simp add: newer_or_same_def)
  qed
  then show ?thesis by (simp add: newestFirst_def)
qed

lemma newestPage_take:
  assumes "\<forall>e \<in> set es. timestamp e \<noteq> None"
  shows "newestPage (take 20 (sort_by byTimestamp es)) es"
proof -
  let ?srt = "sort_by byTimestamp es"
  have nf: "newestFirst ?srt" using assms by (rule newestFirst_sort_by)
  have split: "?srt = take 20 ?srt @ drop 20 ?srt" by simp
  have m: "mset es = mset (take 20 ?srt) + mset (drop 20 ?srt)"
    by (metis split mset_append mset_sort_by)
  have 1: "newestFirst (take 20 ?srt)"
    using nf unfolding newestFirst_def by (metis split sorted_wrt_append)
  have 2: "mset (take 20 ?srt) \<subseteq># mset es" unfolding m by simp
  have 3: "length (take 20 ?srt) = min 20 (length es)"
    by (simp add: length_sort_by min.commute)
  have 4: "\<forall>x \<in> set (take 20 ?srt). \<forall>e \<in># mset es - mset (take 20 ?srt). newer_or_same x e"
  proof (intro ballI)
    fix x e
    assume x: "x \<in> set (take 20 ?srt)" and "e \<in># mset es - mset (take 20 ?srt)"
    then have e: "e \<in> set (drop 20 ?srt)" unfolding m by simp
    have "sorted_wrt newer_or_same (take 20 ?srt @ drop 20 ?srt)"
      using nf unfolding newestFirst_def by simp
    then show "newer_or_same x e"
      using x e unfolding sorted_wrt_append by blast
  qed
  show ?thesis unfolding newestPage_def using 1 2 3 4 by blast
qed

lemma items_computePage_1:
  "items (computePage st 1) = take 20 (sort_by byTimestamp (parsedEntries st))"
  by (simp add: computePage_eq paginate_eq)

lemma items1_computePage1_1:
  "items1 (computePage1 st 1) = take 20 (sort_by byTimestamp (parsedEntries st))"
  by (simp add: computePage1_eq paginate_eq)

text \<open>
  Claim C1. Loading page 1 without appending, in a state whose cache is fresh and over a
  store whose parsed entries carry valid dates, shows the parsed entries newest first:
  the list is ordered by time stamp descending, holds the 20 newest parsed entries (all
  of them when there are at most 20), and nothing left out is newer than an entry shown.
  This holds in both files.
\<close>

theorem page_1_newest_first:
  fixes s :: "page_result client" and s1 :: "page_result1 client"
  assumes "cacheFresh s" and "\<forall>e \<in> set (parsedEntries (st_storage s)). timestamp e \<noteq> None"
    and "cacheFresh1 s1" and "\<forall>e \<in> set (parsedEntries (st_storage s1)). timestamp e \<noteq> None"
  shows "newestPage (st_history (loadHistory 1 False s)) (parsedEntries (st_storage s)) \<and>
         newestPage (st_history (loadHistory1 1 False s1)) (parsedEntries (st_storage s1))"
proof
  show "newestPage (st_history (loadHistory 1 False s)) (parsedEntries (st_storage s))"
    using newestPage_take[OF assms(2)]
    by (simp add: loadHistory_fresh(1)[OF assms(1)] items_computePage_1)
  show "newestPage (st_history (loadHistory1 1 False s1)) (parsedEntries (st_storage s1))"
    using newestPage_take[OF assms(4)]
    by (simp add: loadHistory1_fresh(1)[OF assms(3)] items1_computePage1_1)
qed

lemma parsedEntries_example:
  "parsedEntries exampleStore = [sample GET 100 1000, sample POST 200 3000, sample GET 300 2000]"
  by (simp add: parsedEntries_def exampleStore_def storage_list_def startsWith_def non_null_def
      readKey_def getItem_def)


lemma cacheFresh_initial: "cacheFresh (initial\<lparr>st_storage := st\<rparr>)"
  by (simp add: cacheFresh_def initial_def)

lemma cacheFresh1_initial: "cacheFresh1 (initial\<lparr>st_storage := st\<rparr>)"
  by (simp add: cacheFresh1_def initial_def)

lemma storage_initial: "st_storage (initial\<lparr>st_storage := st\<rparr>) = st"
  by simp

theorem page_1_newest_first_witness:
  "cacheFresh (initial\<lparr>st_storage := exampleStore\<rparr>) \<and>
   cacheFresh1 (initial\<lparr>st_storage := exampleStore\<rparr>) \<and>
   map timestamp (parsedEntries exampleStore) = [Some 1000, Some 3000, Some 2000] \<and>
   newestPage (st_history (loadHistory 1 False (initial\<lparr>st_storage := exampleStore\<rparr>)))
     [sample GET 100 1000, sample POST 200 3000, sample GET 300 2000] \<and>
   newestPage (st_history (loadHistory1 1 False (initial\<lparr>st_storage := exampleStore\<rparr>)))
     [sample GET 100 1000, sample POST 200 3000, sample GET 300 2000]"
proof -
  have v: "\<forall>e \<in> set (parsedEntries exampleStore). timestamp e \<noteq> None"
    by (simp add: parsedEntries_example sample_def)
  have v': "\<forall>e \<in> set (parsedEntries (st_storage (initial\<lparr>st_storage := exampleStore\<rparr> :: 'c client))). timestamp e \<noteq> None"
    using v by simp
  have ts: "map timestamp (parsedEntries exampleStore) = [Some 1000, Some 3000, Some 2000]"
    by (simp add: parsedEntries_example sample_def)
  show ?thesis
    using page_1_newest_first[OF cacheFresh_initial v' cacheFresh1_initial v'] ts
    by (simp add: cacheFresh_initial cacheFresh1_initial parsedEntries_example)
qed

lemma hasMore_computePage:
  "hasMore (computePage st p) = (p * 20 < int (length (parsedEntries st)))"
  by (simp add: computePage_eq paginate_hasMore length_sort_by)

lemma hasMore1_computePage1:
  "hasMore1 (computePage1 st p) = (p * 20 < int (length (parsedEntries st)))"
  by (simp add: computePage1_eq paginate_hasMore length_sort_by)

lemma total_computePage: "cached_total (computePage st p) = length (parsedEntries st)"
  by (simp add: computePage_eq)

text \<open>
  Claim C3. After a load of page \<open>p\<close> the flag \<open>hasMore\<close> is true exactly when
  \<open>p * 20\<close> is less than the number of parsed entries, and \<open>Api.jsx\<close> sets the total
  count to that number. In \<open>Api1.jsx\<close> this needs \<open>p\<close> not to be negative, because a store
  without request keys always gives \<open>false\<close>.
\<close>

theorem hasMore_iff_more_entries:
  fixes s :: "page_result client" and s1 :: "page_result1 client"
  assumes "cacheFresh s" and "cacheFresh1 s1"
  shows "(st_hasMore (loadHistory p a s) \<longleftrightarrow> p * 20 < int (length (parsedEntries (st_storage s)))) \<and>
         st_totalCount (loadHistory p a s) = length (parsedEntries (st_storage s)) \<and>
         (0 \<le> p \<longrightarrow>
           (st_hasMore (loadHistory1 p a s1) \<longleftrightarrow>
              p * 20 < int (length (parsedEntries (st_storage s1)))))"
  using loadHistory_fresh(2,3)[OF assms(1), of p a] loadHistory1_fresh(2)[OF assms(2), of p a]
  by (simp add: hasMore_computePage hasMore1_computePage1 total_computePage)

lemma length_parsedEntries_example: "length (parsedEntries exampleStore) = 3"
  by (simp add: parsedEntries_example)

theorem hasMore_iff_more_entries_witness:
  "cacheFresh (initial\<lparr>st_storage := exampleStore\<rparr>) \<and>
   cacheFresh1 (initial\<lparr>st_storage := exampleStore\<rparr>) \<and> (0::int) \<le> 1 \<and>
   \<not> st_hasMore (loadHistory 1 False (initial\<lparr>st_storage := exampleStore\<rparr>)) \<and>
   st_totalCount (loadHistory 1 False (initial\<lparr>st_storage := exampleStore\<rparr>)) = 3 \<and>
   \<not> st_hasMore (loadHistory1 1 False (initial\<lparr>st_storage := exampleStore\<rparr>)) \<and>
   st_hasMore (loadHistory 0 True (initial\<lparr>st_storage := exampleStore\<rparr>))"
  using hasMore_iff_more_entries[OF cacheFresh_initial cacheFresh1_initial, of 1 False exampleStore exampleStore]
    hasMore_iff_more_entries[OF cacheFresh_initial cacheFresh1_initial, of 0 True exampleStore exampleStore]
  by (simp add: cacheFresh_initial cacheFresh1_initial length_parsedEntries_example)

lemma items_computePage:
  "1 \<le> p \<Longrightarrow> items (computePage st p) =
     take 20 (drop (20 * nat (p - 1)) (sort_by byTimestamp (parsedEntries st)))"
  by (simp add: computePage_eq paginate_eq)

lemma items1_computePage1:
  "1 \<le> p \<Longrightarrow> items1 (computePage1 st p) =
     take 20 (drop (20 * nat (p - 1)) (sort_by byTimestamp (parsedEntries st)))"
  by (simp add: computePage1_eq paginate_eq)

lemma concat_pages:
  assumes "length xs \<le> 20 * n"
  shows "concat (map (\<lambda>p. take 20 (drop (20 * nat (int p - 1)) xs)) [1..<Suc n]) = xs"
proof -
  have "map (\<lambda>p. take 20 (drop (20 * nat (int p - 1)) xs)) [1..<Suc n]
      = map (\<lambda>i. take 20 (drop (20 * i) xs)) [0..<n]"
    by (simp add: map_Suc_upt[symmetric] del: upt_Suc)
  then have "concat (map (\<lambda>p. take 20 (drop (20 * nat (int p - 1)) xs)) [1..<Suc n])
      = take (20 * n) xs"
    by (simp only: concat_windows)
  with assms show ?thesis by simp
qed

lemma loadHistory_page:
  assumes "cacheFresh s" and "1 \<le> p"
  shows "st_history (loadHistory p False s) =
      take 20 (drop (20 * nat (p - 1)) (sort_by byTimestamp (parsedEntries (st_storage s))))"
  using assms(2) by (simp add: loadHistory_fresh(1)[OF assms(1)] items_computePage)

lemma loadHistory1_page:
  assumes "cacheFresh1 s" and "1 \<le> p"
  shows "st_history (loadHistory1 p False s) =
      take 20 (drop (20 * nat (p - 1)) (sort_by byTimestamp (parsedEntries (st_storage s))))"
  using assms(2) by (simp add: loadHistory1_fresh(1)[OF assms(1)] items1_computePage1)

text \<open>
  Claim C2. Page \<open>p\<close> (counted from 1) is the slice of the sorted entry list from index
  \<open>(p - 1) * 20\<close> to \<open>(p - 1) * 20 + 20\<close>; the pages 1 to \<open>n\<close>, once \<open>20 * n\<close> reaches
  the number of entries, concatenate to the whole sorted list; and the sorted list holds
  every parsed entry exactly as often as the store does.
\<close>

theorem pages_partition_history:
  fixes s :: "page_result client" and s1 :: "page_result1 client"
  assumes "cacheFresh s" and "cacheFresh1 s1"
  shows "(1 \<le> p \<longrightarrow>
            st_history (loadHistory p False s) =
              take 20 (drop (20 * nat (p - 1)) (sort_by byTimestamp (parsedEntries (st_storage s)))) \<and>
            st_history (loadHistory1 p False s1) =
              take 20 (drop (20 * nat (p - 1)) (sort_by byTimestamp (parsedEntries (st_storage s1))))) \<and>
         (length (parsedEntries (st_storage s)) \<le> 20 * n \<longrightarrow>
            concat (map (\<lambda>p. st_history (loadHistory (int p) False s)) [1..<Suc n]) =
              sort_by byTimestamp (parsedEntries (st_storage s))) \<and>
         (length (parsedEntries (st_storage s1)) \<le> 20 * n \<longrightarrow>
            concat (map (\<lambda>p. st_history (loadHistory1 (int p) False s1)) [1..<Suc n]) =
              sort_by byTimestamp (parsedEntries (st_storage s1))) \<and>
         mset (sort_by byTimestamp (parsedEntries (st_storage s))) = mset (parsedEntries (st_storage s)) \<and>
         mset (sort_by byTimestamp (parsedEntries (st_storage s1))) = mset (parsedEntries (st_storage s1))"
proof -
  note page = loadHistory_page[OF assms(1)]
  note page1 = loadHistory1_page[OF assms(2)]
  have all: "concat (map (\<lambda>p. st_history (loadHistory (int p) False s)) [1..<Suc n]) =
      sort_by byTimestamp (parsedEntries (st_storage s))"
    if le: "length (parsedEntries (st_storage s)) \<le> 20 * n"
  proof -
    have "map (\<lambda>p. st_history (loadHistory (int p) False s)) [1..<Suc n]
        = map (\<lambda>p. take 20 (drop (20 * nat (int p - 1))
            (sort_by byTimestamp (parsedEntries (st_storage s))))) [1..<Suc n]"
      by (rule map_cong[OF refl], rule page) auto
    then show ?thesis
      using concat_pages[of "sort_by byTimestamp (parsedEntries (st_storage s))" n] le
      by (simp only: length_sort_by)
  qed
  have all1: "concat (map (\<lambda>p. st_history (loadHistory1 (int p) False s1)) [1..<Suc n]) =
      sort_by byTimestamp (parsedEntries (st_storage s1))"
    if le: "length (parsedEntries (st_storage s1)) \<le> 20 * n"
  proof -
    have "map (\<lambda>p. st_history (loadHistory1 (int p) False s1)) [1..<Suc n]
        = map (\<lambda>p. take 20 (drop (20 * nat (int p - 1))
            (sort_by byTimestamp (parsedEntries (st_storage s1))))) [1..<Suc n]"
      by (rule map_cong[OF refl], rule page1) auto
    then show ?thesis
      using concat_pages[of "sort_by byTimestamp (parsedEntries (st_storage s1))" n] le
      by (simp only: length_sort_by)
  qed
  show ?thesis
    using page[of p] page1[of p] all all1 by (simp add: mset_sort_by)
qed

lemma bigStore_parsed: "parsedEntries bigStore = map (sample GET 1) [1..22]"
  by code_simp

lemma bigStore_sorted:
  "sort_by byTimestamp (map (sample GET 1) [1..22]) = map (sample GET 1) (rev [1..22])"
  by code_simp

lemma bigStore_page_2:
  "take 20 (drop (20 * nat (2 - 1)) (map (sample GET 1) (rev [1..22]))) = [sample GET 1 2, sample GET 1 1]"
  by code_simp

lemma bigStore_length: "length (parsedEntries bigStore) \<le> 20 * 2"
  unfolding bigStore_parsed by code_simp

theorem pages_partition_history_witness:
  "cacheFresh (initial\<lparr>st_storage := bigStore\<rparr>) \<and>
   cacheFresh1 (initial\<lparr>st_storage := bigStore\<rparr>) \<and>
   (1::int) \<le> 2 \<and> length (parsedEntries bigStore) \<le> 20 * 2 \<and>
   st_history (loadHistory 2 False (initial\<lparr>st_storage := bigStore\<rparr>)) =
     [sample GET 1 2, sample GET 1 1] \<and>
   st_history (loadHistory1 2 False (initial\<lparr>st_storage := bigStore\<rparr>)) =
     [sample GET 1 2, sample GET 1 1] \<and>
   concat (map (\<lambda>p. st_history (loadHistory (int p) False (initial\<lparr>st_storage := bigStore\<rparr>)))
     [1..<Suc 2]) = map (sample GET 1) (rev [1..22]) \<and>
   concat (map (\<lambda>p. st_history (loadHistory1 (int p) False (initial\<lparr>st_storage := bigStore\<rparr>)))
     [1..<Suc 2]) = map (sample GET 1) (rev [1..22])"
  using pages_partition_history[OF cacheFresh_initial cacheFresh1_initial, of 2 bigStore bigStore 2]
    bigStore_length
  by (simp only: cacheFresh_initial cacheFresh1_initial storage_initial bigStore_parsed
      bigStore_sorted bigStore_page_2) simp











section \<open>The window of the statistics\<close>

lemma slice_from_last: "0 < k \<Longrightarrow> slice_from (- int k) xs = drop (length xs - k) xs"
proof -
  have "nat (max (int (length xs) - int k) 0) = length xs - k" by simp
  then show ?thesis if "0 < k"
    using that by (simp add: slice_from_def slice_index_def)
qed

lemma statsSample_eq:
  "statsSample st =
     non_null (map (readKey st) (drop (length (getRequestKeys st) - 100) (getRequestKeys st)))"
  using slice_from_last[of 100 "getRequestKeys st"]
  by (simp add: statsSample_def Let_def)

lemma length_non_null: "length (non_null xs) \<le> length xs"
  by (simp add: non_null_def)

lemma length_statsSample: "length (statsSample st) \<le> 100"
proof -
  let ?recent = "drop (length (getRequestKeys st) - 100) (getRequestKeys st)"
  have "length (statsSample st) \<le> length (map (readKey st) ?recent)"
    unfolding statsSample_eq by (rule length_non_null)
  also have "\<dots> \<le> 100" by simp
  finally show ?thesis .
qed

lemma keys_setItem:
  "k \<in> fst ` set st \<Longrightarrow> map fst (setItem st k v) = map fst st"
  by (induction st k v rule: setItem.induct) auto

lemma map_of_setItem:
  "map_of (setItem st k v) k' = (if k' = k then Some v else map_of st k')"
  by (induction st k v rule: setItem.induct) auto

lemma readKey_setItem: "k' \<noteq> k \<Longrightarrow> readKey (setItem st k v) k' = readKey st k'"
  by (simp add: readKey_def getItem_def map_of_setItem)

lemma getRequestKeys_setItem:
  "k \<in> fst ` set st \<Longrightarrow> getRequestKeys (setItem st k v) = getRequestKeys st"
  by (simp add: getRequestKeys_def keys_setItem)

lemma getRequestKeys_subset: "set (getRequestKeys st) \<subseteq> fst ` set st"
  by (auto simp: getRequestKeys_def)

lemma distinct_getRequestKeys: "distinct (map fst st) \<Longrightarrow> distinct (getRequestKeys st)"
  by (simp add: getRequestKeys_def)

lemma statsSample_ignores_older:
  assumes d: "distinct (map fst st)"
    and k: "k \<in> set (take (length (getRequestKeys st) - 100) (getRequestKeys st))"
  shows "statsSample (setItem st k v) = statsSample st"
proof -
  let ?keys = "getRequestKeys st"
  let ?n = "length ?keys - 100"
  have kin: "k \<in> fst ` set st"
    using k getRequestKeys_subset[of st] by (meson in_set_takeD subsetD)
  have "distinct (take ?n ?keys @ drop ?n ?keys)"
    using distinct_getRequestKeys[OF d] by simp
  then have "k \<notin> set (drop ?n ?keys)"
    using k by (metis IntI distinct_append empty_iff)
  then have "map (readKey (setItem st k v)) (drop ?n ?keys) = map (readKey st) (drop ?n ?keys)"
    by (intro map_cong[OF refl] readKey_setItem) auto
  then show ?thesis
    by (simp only: statsSample_eq getRequestKeys_setItem[OF kin])
qed

text \<open>
  Claim C8. The statistics are computed over the records of the last 100 request keys in
  the key order of the store, at most 100 entries: \<open>loadStats\<close> hands \<open>computeStats\<close> the
  parsed records of these keys only, while the total count it sets is the number of all
  request keys. The record under an older key has no influence on what is handed over.
\<close>

theorem stats_over_last_100_keys:
  "statsSample (st_storage s) =
     non_null (map (readKey (st_storage s))
       (drop (length (getRequestKeys (st_storage s)) - 100) (getRequestKeys (st_storage s)))) \<and>
   length (statsSample (st_storage s)) \<le> 100 \<and>
   (getRequestKeys (st_storage s) \<noteq> [] \<longrightarrow>
      st_stats (loadStats s) = Some (computeStats (statsSample (st_storage s))) \<and>
      st_totalCount (loadStats s) = length (getRequestKeys (st_storage s))) \<and>
   (distinct (map fst (st_storage s)) \<and>
    k \<in> set (take (length (getRequestKeys (st_storage s)) - 100) (getRequestKeys (st_storage s))) \<longrightarrow>
      statsSample (setItem (st_storage s) k v) = statsSample (st_storage s))"
proof (intro conjI impI)
  show "statsSample (st_storage s) =
     non_null (map (readKey (st_storage s))
       (drop (length (getRequestKeys (st_storage s)) - 100) (getRequestKeys (st_storage s))))"
    by (rule statsSample_eq)
  show "length (statsSample (st_storage s)) \<le> 100"
    by (rule length_statsSample)
  show "st_stats (loadStats s) = Some (computeStats (statsSample (st_storage s)))"
    if "getRequestKeys (st_storage s) \<noteq> []"
    using that by (simp add: loadStats_def Let_def)
  show "st_totalCount (loadStats s) = length (getRequestKeys (st_storage s))"
    if "getRequestKeys (st_storage s) \<noteq> []"
    using that by (simp add: loadStats_def Let_def)
  show "statsSample (setItem (st_storage s) k v) = statsSample (st_storage s)"
    if "distinct (map fst (st_storage s)) \<and>
        k \<in> set (take (length (getRequestKeys (st_storage s)) - 100) (getRequestKeys (st_storage s)))"
    using that statsSample_ignores_older by blast
qed

lemma manyStore_keys: "getRequestKeys manyStore = map (\<lambda>i. ''request:'' @ String_of i) [1..102]"
  by code_simp

lemma manyStore_older:
  "take (length (map (\<lambda>i. ''request:'' @ String_of i) [1..102]) - 100)
     (map (\<lambda>i. ''request:'' @ String_of i) [1..102]) = [''request:1'', ''request:2'']"
  by code_simp

lemma manyStore_distinct: "distinct (map fst manyStore)"
  by code_simp

lemma manyStore_nonempty: "getRequestKeys manyStore \<noteq> []"
  unfolding manyStore_keys by code_simp

lemma manyStore_count: "length (getRequestKeys manyStore) = 102"
  unfolding manyStore_keys by code_simp

theorem stats_over_last_100_keys_witness:
  "getRequestKeys manyStore \<noteq> [] \<and> distinct (map fst manyStore) \<and>
   ''request:1'' \<in> set (take (length (getRequestKeys manyStore) - 100) (getRequestKeys manyStore)) \<and>
   length (statsSample manyStore) \<le> 100 \<and>
   st_totalCount (loadStats (initial\<lparr>st_storage := manyStore\<rparr> :: page_result1 client)) = 102 \<and>
   statsSample (setItem manyStore ''request:1'' Malformed) = statsSample manyStore"
proof -
  have older: "''request:1'' \<in> set (take (length (getRequestKeys manyStore) - 100) (getRequestKeys manyStore))"
    unfolding manyStore_keys manyStore_older by simp
  note c = stats_over_last_100_keys[of "initial\<lparr>st_storage := manyStore\<rparr> :: page_result1 client" "''request:1''" Malformed,
      unfolded storage_initial]
  have 1: "length (statsSample manyStore) \<le> 100"
    using c by blast
  have 2: "st_totalCount (loadStats (initial\<lparr>st_storage := manyStore\<rparr> :: page_result1 client)) = 102"
    using c manyStore_nonempty manyStore_count by simp
  have 3: "statsSample (setItem manyStore ''request:1'' Malformed) = statsSample manyStore"
    using c manyStore_distinct older by blast
  show ?thesis
    using manyStore_nonempty manyStore_distinct older 1 2 3 by blast
qed

section \<open>Changing the history\<close>

lemma cacheFresh_after_clear:
  "st_cache s = Map.empty \<Longrightarrow> cacheFresh (loadHistory p a s)"
  by (rule loadHistory_fresh(4)) (simp add: cacheFresh_def)

lemma cacheFresh1_after_clear:
  "st_cache s = Map.empty \<Longrightarrow> cacheFresh1 (loadHistory1 p a s)"
  by (auto simp: loadHistory1_def Let_def cacheFresh1_def computePage1_def split: prod.splits)

lemma foldl_removeItem: "foldl removeItem st ks = filter (\<lambda>kv. fst kv \<notin> set ks) st"
proof (induction ks arbitrary: st)
  case Nil
  show ?case by simp
next
  case (Cons k ks)
  have "foldl removeItem st (k # ks) = filter (\<lambda>kv. fst kv \<notin> set ks) (removeItem st k)"
    by (simp only: foldl_Cons Cons.IH)
  also have "\<dots> = filter (\<lambda>kv. fst kv \<notin> set (k # ks)) st"
    by (simp add: removeItem_def conj_commute)
  finally show ?case .
qed

lemma clear_request_keys:
  "foldl removeItem st (storage_list ''request:'' st) =
     filter (\<lambda>kv. \<not> startsWith (fst kv) ''request:'') st"
  unfolding foldl_removeItem
  by (rule filter_cong[OF refl]) (auto simp: storage_list_def)

lemma save_unfold:
  "saveToHistory env d s =
     loadHistory 1 False
       (s\<lparr>st_storage := setItem (st_storage s) (''request:'' @ String_of (Date_now env))
                            (JsonEntry (d\<lparr>entry_id := Some (Date_now env)\<rparr>)),
          st_cache := Map.empty, st_page := 1\<rparr>)"
  by (simp add: saveToHistory_def Let_def)

lemma delete_unfold:
  "deleteHistoryItem i s =
     loadHistory 1 False
       (s\<lparr>st_storage := removeItem (st_storage s) (''request:'' @ String_of i),
          st_cache := Map.empty, st_page := 1\<rparr>)"
  by (simp add: deleteHistoryItem_def Let_def)

lemma save1_unfold:
  "saveToHistory1 env d s =
     loadStats (loadHistory1 1 False
       (s\<lparr>st_storage := setItem (st_storage s) (''request:'' @ String_of (Date_now env))
                            (JsonEntry (d\<lparr>entry_id := Some (Date_now env),
                                          timestamp := Some (new_Date env)\<rparr>)),
          st_cache := Map.empty, st_page := 1\<rparr>))"
  by (simp add: saveToHistory1_def Let_def)

lemma delete1_unfold:
  "deleteHistoryItem1 i s =
     loadStats (loadHistory1 1 False
       (s\<lparr>st_storage := removeItem (st_storage s) (''request:'' @ String_of i),
          st_cache := Map.empty, st_page := 1\<rparr>))"
  by (simp add: deleteHistoryItem1_def Let_def)

lemma cacheFresh_save: "cacheFresh (saveToHistory env d s)"
  unfolding save_unfold by (rule cacheFresh_after_clear) simp

lemma cacheFresh_delete: "cacheFresh (deleteHistoryItem i s)"
  unfolding delete_unfold by (rule cacheFresh_after_clear) simp

lemma cacheFresh_clearAll: "cacheFresh (clearAllHistory s)"
  by (simp add: clearAllHistory_def Let_def cacheFresh_def)

lemma cacheFresh_refresh: "cacheFresh (refreshHistory s)"
  unfolding refreshHistory_def by (rule cacheFresh_after_clear) simp

lemma cacheFresh1_save: "cacheFresh1 (saveToHistory1 env d s)"
  unfolding save1_unfold cacheFresh1_loadStats by (rule cacheFresh1_after_clear) simp

lemma cacheFresh1_delete: "cacheFresh1 (deleteHistoryItem1 i s)"
  unfolding delete1_unfold cacheFresh1_loadStats by (rule cacheFresh1_after_clear) simp

lemma cacheFresh1_clearAll: "cacheFresh1 (clearAllHistory1 s)"
  unfolding clearAllHistory1_def Let_def cacheFresh1_loadStats
  by (simp add: cacheFresh1_def)

lemma cacheFresh1_refresh: "cacheFresh1 (refreshHistory1 s)"
  unfolding refreshHistory1_def cacheFresh1_loadStats
  by (rule cacheFresh1_after_clear) simp

text \<open>
  Claim C9. Saving an entry, deleting an entry and clearing the history each empty the
  page cache after the store has changed and before anything is loaded. So the state they
  leave does not depend on what the cache held before, the cache they leave holds nothing
  but pages of the present store, and a load that follows shows a page of the present
  store. This holds in both files.
\<close>

theorem mutations_clear_cache:
  fixes s :: "page_result client" and s1 :: "page_result1 client"
  shows "saveToHistory env d (s\<lparr>st_cache := c\<rparr>) = saveToHistory env d s \<and>
         deleteHistoryItem i (s\<lparr>st_cache := c\<rparr>) = deleteHistoryItem i s \<and>
         clearAllHistory (s\<lparr>st_cache := c\<rparr>) = clearAllHistory s \<and>
         saveToHistory1 env d (s1\<lparr>st_cache := c1\<rparr>) = saveToHistory1 env d s1 \<and>
         deleteHistoryItem1 i (s1\<lparr>st_cache := c1\<rparr>) = deleteHistoryItem1 i s1 \<and>
         clearAllHistory1 (s1\<lparr>st_cache := c1\<rparr>) = clearAllHistory1 s1 \<and>
         cacheFresh (saveToHistory env d s) \<and> cacheFresh (deleteHistoryItem i s) \<and>
         cacheFresh (clearAllHistory s) \<and>
         cacheFresh1 (saveToHistory1 env d s1) \<and> cacheFresh1 (deleteHistoryItem1 i s1) \<and>
         cacheFresh1 (clearAllHistory1 s1) \<and>
         st_cache (clearAllHistory s) = Map.empty \<and> st_cache (clearAllHistory1 s1) = Map.empty \<and>
         st_history (loadHistory p False (saveToHistory env d s)) =
           items (computePage (st_storage (saveToHistory env d s)) p) \<and>
         st_history (loadHistory p False (deleteHistoryItem i s)) =
           items (computePage (st_storage (deleteHistoryItem i s)) p) \<and>
         st_history (loadHistory p False (clearAllHistory s)) =
           items (computePage (st_storage (clearAllHistory s)) p)"
proof -
  have indep: "saveToHistory env d (s\<lparr>st_cache := c\<rparr>) = saveToHistory env d s"
    "deleteHistoryItem i (s\<lparr>st_cache := c\<rparr>) = deleteHistoryItem i s"
    "clearAllHistory (s\<lparr>st_cache := c\<rparr>) = clearAllHistory s"
    by (simp_all add: save_unfold delete_unfold clearAllHistory_def Let_def)
  have indep1: "saveToHistory1 env d (s1\<lparr>st_cache := c1\<rparr>) = saveToHistory1 env d s1"
    "deleteHistoryItem1 i (s1\<lparr>st_cache := c1\<rparr>) = deleteHistoryItem1 i s1"
    "clearAllHistory1 (s1\<lparr>st_cache := c1\<rparr>) = clearAllHistory1 s1"
    by (simp_all add: save1_unfold delete1_unfold clearAllHistory1_def Let_def)
  have empty: "st_cache (clearAllHistory s) = Map.empty" "st_cache (clearAllHistory1 s1) = Map.empty"
    by (simp_all add: clearAllHistory_def clearAllHistory1_def Let_def cache_loadStats)
  have later: "st_history (loadHistory p False (saveToHistory env d s)) =
           items (computePage (st_storage (saveToHistory env d s)) p)"
    "st_history (loadHistory p False (deleteHistoryItem i s)) =
           items (computePage (st_storage (deleteHistoryItem i s)) p)"
    "st_history (loadHistory p False (clearAllHistory s)) =
           items (computePage (st_storage (clearAllHistory s)) p)"
    by (simp_all add: loadHistory_fresh(1)[OF cacheFresh_save] loadHistory_fresh(1)[OF cacheFresh_delete]
        loadHistory_fresh(1)[OF cacheFresh_clearAll])
  show ?thesis
    apply (intro conjI)
    apply (rule indep(1))
    apply (rule indep(2))
    apply (rule indep(3))
    apply (rule indep1(1))
    apply (rule indep1(2))
    apply (rule indep1(3))
    apply (rule cacheFresh_save)
    apply (rule cacheFresh_delete)
    apply (rule cacheFresh_clearAll)
    apply (rule cacheFresh1_save)
    apply (rule cacheFresh1_delete)
    apply (rule cacheFresh1_clearAll)
    apply (rule empty(1))
    apply (rule empty(2))
    apply (rule later(1))
    apply (rule later(2))
    apply (rule later(3))
    done
qed

lemma staleState_stale: "\<not> cacheFresh staleState"
proof
  assume "cacheFresh staleState"
  then have "\<lparr>items = [sample DELETE 9 9], cached_total = 1, hasMore = True\<rparr>
      = computePage (st_storage staleState) 1"
    by (simp add: cacheFresh_def staleState_def)
  then have "cached_total (computePage exampleStore 1) = 1"
    by (simp add: staleState_def) (metis page_result.select_convs(2))
  then show False
    by (simp add: total_computePage parsedEntries_example)
qed

lemma staleState_serves_stale:
  "st_history (loadHistory 1 False staleState) = [sample DELETE 9 9]"
  by (simp add: loadHistory_def staleState_def)

lemma exampleStore_after_delete:
  "sort_by byTimestamp (parsedEntries (removeItem exampleStore (''request:'' @ String_of 1000)))
     = [sample POST 200 3000, sample GET 300 2000]"
  by code_simp

theorem mutations_clear_cache_witness:
  "\<not> cacheFresh staleState \<and>
   st_history (loadHistory 1 False staleState) = [sample DELETE 9 9] \<and>
   cacheFresh (deleteHistoryItem 1000 staleState) \<and>
   deleteHistoryItem 1000 staleState = deleteHistoryItem 1000 (staleState\<lparr>st_cache := Map.empty\<rparr>) \<and>
   st_history (loadHistory 1 False (deleteHistoryItem 1000 staleState)) =
     [sample POST 200 3000, sample GET 300 2000]"
proof -
  note c = mutations_clear_cache[where s = "staleState\<lparr>st_cache := Map.empty\<rparr>"
      and c = "st_cache staleState" and i = 1000 and p = 1]
  have e: "staleState\<lparr>st_cache := Map.empty, st_cache := st_cache staleState\<rparr> = staleState"
    by simp
  have st: "st_storage (deleteHistoryItem 1000 staleState)
      = removeItem exampleStore (''request:'' @ String_of 1000)"
    by (simp add: delete_unfold storage_loadHistory staleState_def)
  have 1: "cacheFresh (deleteHistoryItem 1000 staleState)"
    using c by (simp add: e)
  have 2: "deleteHistoryItem 1000 staleState = deleteHistoryItem 1000 (staleState\<lparr>st_cache := Map.empty\<rparr>)"
    using c by (simp add: e)
  have "st_history (loadHistory 1 False (deleteHistoryItem 1000 staleState)) =
      items (computePage (st_storage (deleteHistoryItem 1000 staleState)) 1)"
    using c by (simp add: e)
  then have 3: "st_history (loadHistory 1 False (deleteHistoryItem 1000 staleState)) =
     [sample POST 200 3000, sample GET 300 2000]"
    by (simp only: st items_computePage_1 exampleStore_after_delete) simp
  show ?thesis
    using staleState_stale staleState_serves_stale 1 2 3 by blast
qed

lemma getItem_removeItem:
  "getItem (removeItem st k) k' = (if k' = k then None else getItem st k')"
proof (induction st)
  case Nil
  show ?case by (simp add: getItem_def removeItem_def)
next
  case (Cons kv st)
  then show ?case
    by (cases kv) (auto simp: getItem_def removeItem_def)
qed

lemma getItem_setItem:
  "getItem (setItem st k v) k' = (if k' = k then Some v else getItem st k')"
  by (simp add: getItem_def map_of_setItem)

lemma others_setItem:
  "startsWith k ''request:'' \<Longrightarrow>
     filter (\<lambda>kv. \<not> startsWith (fst kv) ''request:'') (setItem st k v) =
     filter (\<lambda>kv. \<not> startsWith (fst kv) ''request:'') st"
  by (induction st k v rule: setItem.induct) auto

lemma others_removeItem:
  "startsWith k ''request:'' \<Longrightarrow>
     filter (\<lambda>kv. \<not> startsWith (fst kv) ''request:'') (removeItem st k) =
     filter (\<lambda>kv. \<not> startsWith (fst kv) ''request:'') st"
  unfolding removeItem_def filter_filter
  by (rule filter_cong[OF refl]) auto

lemma request_key: "startsWith (''request:'' @ suffix) ''request:''"
  by (simp add: startsWith_def)

lemma storage_save:
  "st_storage (saveToHistory env d s) =
     setItem (st_storage s) (''request:'' @ String_of (Date_now env))
       (JsonEntry (d\<lparr>entry_id := Some (Date_now env)\<rparr>))"
  by (simp add: save_unfold storage_loadHistory)

lemma storage_save1:
  "st_storage (saveToHistory1 env d s) =
     setItem (st_storage s) (''request:'' @ String_of (Date_now env))
       (JsonEntry (d\<lparr>entry_id := Some (Date_now env), timestamp := Some (new_Date env)\<rparr>))"
  by (simp add: save1_unfold storage_loadStats storage_loadHistory1)

lemma storage_delete:
  "st_storage (deleteHistoryItem i s) = removeItem (st_storage s) (''request:'' @ String_of i)"
  by (simp add: delete_unfold storage_loadHistory)

lemma storage_delete1:
  "st_storage (deleteHistoryItem1 i s) = removeItem (st_storage s) (''request:'' @ String_of i)"
  by (simp add: delete1_unfold storage_loadStats storage_loadHistory1)

lemma storage_clearAll:
  "st_storage (clearAllHistory s) =
     filter (\<lambda>kv. \<not> startsWith (fst kv) ''request:'') (st_storage s)"
  by (simp add: clearAllHistory_def Let_def clear_request_keys)

lemma storage_clearAll1:
  "st_storage (clearAllHistory1 s) =
     filter (\<lambda>kv. \<not> startsWith (fst kv) ''request:'') (st_storage s)"
  by (simp add: clearAllHistory1_def Let_def storage_loadStats getRequestKeys_eq clear_request_keys)

lemma others_save:
  "filter (\<lambda>kv. \<not> startsWith (fst kv) ''request:'') (st_storage (saveToHistory env d s)) =
     filter (\<lambda>kv. \<not> startsWith (fst kv) ''request:'') (st_storage s)"
  unfolding storage_save by (rule others_setItem) (rule request_key)

lemma others_save1:
  "filter (\<lambda>kv. \<not> startsWith (fst kv) ''request:'') (st_storage (saveToHistory1 env d s)) =
     filter (\<lambda>kv. \<not> startsWith (fst kv) ''request:'') (st_storage s)"
  unfolding storage_save1 by (rule others_setItem) (rule request_key)

lemma others_delete:
  "filter (\<lambda>kv. \<not> startsWith (fst kv) ''request:'') (st_storage (deleteHistoryItem i s)) =
     filter (\<lambda>kv. \<not> startsWith (fst kv) ''request:'') (st_storage s)"
  unfolding storage_delete by (rule others_removeItem) (rule request_key)

lemma others_delete1:
  "filter (\<lambda>kv. \<not> startsWith (fst kv) ''request:'') (st_storage (deleteHistoryItem1 i s)) =
     filter (\<lambda>kv. \<not> startsWith (fst kv) ''request:'') (st_storage s)"
  unfolding storage_delete1 by (rule others_removeItem) (rule request_key)

lemma others_clearAll:
  "filter (\<lambda>kv. \<not> startsWith (fst kv) ''request:'') (st_storage (clearAllHistory s)) =
     filter (\<lambda>kv. \<not> startsWith (fst kv) ''request:'') (st_storage s)"
  unfolding storage_clearAll by simp

lemma others_clearAll1:
  "filter (\<lambda>kv. \<not> startsWith (fst kv) ''request:'') (st_storage (clearAllHistory1 s)) =
     filter (\<lambda>kv. \<not> startsWith (fst kv) ''request:'') (st_storage s)"
  unfolding storage_clearAll1 by simp

text \<open>
  Claim C10. Clearing the history removes exactly the records whose key begins with
  \<open>request:\<close> and keeps every other record, value and position included. Deleting the
  entry \<open>i\<close> removes the one key \<open>request:i\<close>, and saving writes the one key
  \<open>request:now\<close>; every other key reads as before. None of the three operations changes
  the records whose key does not begin with \<open>request:\<close>. This holds in both files.
\<close>

theorem mutations_touch_request_keys_only:
  fixes s :: "page_result client" and s1 :: "page_result1 client"
  shows "st_storage (clearAllHistory s) =
           filter (\<lambda>kv. \<not> startsWith (fst kv) ''request:'') (st_storage s) \<and>
         st_storage (clearAllHistory1 s1) =
           filter (\<lambda>kv. \<not> startsWith (fst kv) ''request:'') (st_storage s1) \<and>
         getItem (st_storage (deleteHistoryItem i s)) k =
           (if k = ''request:'' @ String_of i then None else getItem (st_storage s) k) \<and>
         getItem (st_storage (deleteHistoryItem1 i s1)) k =
           (if k = ''request:'' @ String_of i then None else getItem (st_storage s1) k) \<and>
         (k \<noteq> ''request:'' @ String_of (Date_now env) \<longrightarrow>
            getItem (st_storage (saveToHistory env d s)) k = getItem (st_storage s) k \<and>
            getItem (st_storage (saveToHistory1 env d s1)) k = getItem (st_storage s1) k) \<and>
         filter (\<lambda>kv. \<not> startsWith (fst kv) ''request:'') (st_storage (saveToHistory env d s)) =
           filter (\<lambda>kv. \<not> startsWith (fst kv) ''request:'') (st_storage s) \<and>
         filter (\<lambda>kv. \<not> startsWith (fst kv) ''request:'') (st_storage (deleteHistoryItem i s)) =
           filter (\<lambda>kv. \<not> startsWith (fst kv) ''request:'') (st_storage s) \<and>
         filter (\<lambda>kv. \<not> startsWith (fst kv) ''request:'') (st_storage (clearAllHistory s)) =
           filter (\<lambda>kv. \<not> startsWith (fst kv) ''request:'') (st_storage s) \<and>
         filter (\<lambda>kv. \<not> startsWith (fst kv) ''request:'') (st_storage (saveToHistory1 env d s1)) =
           filter (\<lambda>kv. \<not> startsWith (fst kv) ''request:'') (st_storage s1) \<and>
         filter (\<lambda>kv. \<not> startsWith (fst kv) ''request:'') (st_storage (deleteHistoryItem1 i s1)) =
           filter (\<lambda>kv. \<not> startsWith (fst kv) ''request:'') (st_storage s1) \<and>
         filter (\<lambda>kv. \<not> startsWith (fst kv) ''request:'') (st_storage (clearAllHistory1 s1)) =
           filter (\<lambda>kv. \<not> startsWith (fst kv) ''request:'') (st_storage s1)"
proof -
  have del: "getItem (st_storage (deleteHistoryItem i s)) k =
           (if k = ''request:'' @ String_of i then None else getItem (st_storage s) k)"
    unfolding storage_delete by (rule getItem_removeItem)
  have del1: "getItem (st_storage (deleteHistoryItem1 i s1)) k =
           (if k = ''request:'' @ String_of i then None else getItem (st_storage s1) k)"
    unfolding storage_delete1 by (rule getItem_removeItem)
  have sav: "k \<noteq> ''request:'' @ String_of (Date_now env) \<longrightarrow>
            getItem (st_storage (saveToHistory env d s)) k = getItem (st_storage s) k \<and>
            getItem (st_storage (saveToHistory1 env d s1)) k = getItem (st_storage s1) k"
    unfolding storage_save storage_save1 getItem_setItem by simp
  show ?thesis
    apply (intro conjI)
               apply (rule storage_clearAll)
              apply (rule storage_clearAll1)
             apply (rule del)
            apply (rule del1)
           apply (rule sav)
          apply (rule others_save)
         apply (rule others_delete)
        apply (rule others_clearAll)
       apply (rule others_save1)
      apply (rule others_delete1)
     apply (rule others_clearAll1)
    done
qed

lemma exampleStore_cleared: "filter (\<lambda>kv. \<not> startsWith (fst kv) ''request:'') exampleStore = [(''theme'', Malformed)]"
  by (simp add: exampleStore_def startsWith_def)

theorem mutations_touch_request_keys_only_witness:
  "''theme'' \<noteq> ''request:'' @ String_of 4000 \<and>
   st_storage (clearAllHistory (initial\<lparr>st_storage := exampleStore\<rparr>)) = [(''theme'', Malformed)] \<and>
   st_storage (clearAllHistory1 (initial\<lparr>st_storage := exampleStore\<rparr>)) = [(''theme'', Malformed)] \<and>
   getItem (st_storage (deleteHistoryItem 1000 (initial\<lparr>st_storage := exampleStore\<rparr>))) ''theme'' =
     Some Malformed \<and>
   getItem (st_storage (saveToHistory (offlineEnv) (sample GET 5 4000)
       (initial\<lparr>st_storage := exampleStore\<rparr>))) ''theme'' = Some Malformed"
proof -
  have g: "getItem exampleStore ''theme'' = Some Malformed"
    by (simp add: getItem_def exampleStore_def)
  have n: "''theme'' \<noteq> ''request:'' @ String_of 4000" by simp
  have n': "''theme'' \<noteq> ''request:'' @ String_of 1000" by simp
  show ?thesis
    using mutations_touch_request_keys_only[where s = "initial\<lparr>st_storage := exampleStore\<rparr>"
        and ?s1.0 = "initial\<lparr>st_storage := exampleStore\<rparr>" and i = 1000 and k = "''theme''"
        and env = "offlineEnv" and d = "sample GET 5 4000"] n n'
    by (simp add: exampleStore_cleared g offlineEnv_def)
qed

section \<open>Sending a request: failures\<close>

lemma tryRequest_invalid:
  assumes "validationFails env s"
  shows "tryRequest env (st_method s) (st_url s) (st_headers s) (st_body s) = ([], Inl (validationError env s))"
proof (cases "JSON_parse env (st_headers s)")
  case None
  then show ?thesis by (simp add: tryRequest_def validationError_def)
next
  case (Some parsedHeaders)
  show ?thesis
  proof (cases "trim (st_body s) \<noteq> [] \<and> st_method s \<in> set bodyMethods
                \<and> JSON_parse env (st_body s) = None")
    case True
    with Some show ?thesis by (simp add: tryRequest_def validationError_def)
  next
    case False
    with assms Some have "trim (st_url s) = [] \<or> \<not> URL_valid env (st_url s)"
      by (auto simp: validationFails_def)
    with Some False show ?thesis
      by (auto simp: tryRequest_def validationError_def split: option.splits)
  qed
qed


lemma tryRequest_valid:
  assumes "\<not> validationFails env s"
  shows "length (fst (tryRequest env (st_method s) (st_url s) (st_headers s) (st_body s))) = 1"
proof -
  obtain parsedHeaders where h: "JSON_parse env (st_headers s) = Some parsedHeaders"
    using assms by (auto simp: validationFails_def)
  have u: "trim (st_url s) \<noteq> []" "URL_valid env (st_url s)"
    using assms by (auto simp: validationFails_def)
  show ?thesis
  proof (cases "trim (st_body s) \<noteq> [] \<and> st_method s \<in> set bodyMethods")
    case True
    then obtain v where b: "JSON_parse env (st_body s) = Some v"
      using assms by (auto simp: validationFails_def)
    from True have t: "trim (st_body s) \<noteq> []" "st_method s \<in> set bodyMethods" by simp_all
    show ?thesis
      unfolding tryRequest_def
      by (simp add: h u b t Let_def split: sum.split json.split option.split)
  next
    case False
    then have "(if trim (st_body s) \<noteq> [] \<and> st_method s \<in> set bodyMethods
                 then (case JSON_parse env (st_body s) of
                         None \<Rightarrow> Inl (new_Error ''Invalid JSON in body'')
                       | Some v \<Rightarrow> Inr (Some v))
                 else Inr None) = Inr None"
      by (rule if_not_P)
    then show ?thesis
      unfolding tryRequest_def
      by (simp add: h u Let_def split: sum.split json.split option.split)
  qed
qed

lemma sendRequest_failure:
  assumes "tryRequest env (st_method s) (st_url s) (st_headers s) (st_body s) = (calls, Inl e)"
  shows "st_storage (sendRequest env s) =
           setItem (st_storage s) (''request:'' @ String_of (Date_now env))
             (JsonEntry
               \<lparr>method = st_method s, url = st_url s, headers = HeadersText (st_headers s),
                body = st_body s, response = errorResponse env e, statusCode = 400,
                duration = Some (Math_round (perf_failed env - perf_start env)),
                timestamp = Some (new_Date env), entry_id = Some (Date_now env)\<rparr>)"
    and "st_requests (sendRequest env s) = st_requests s @ calls"
    and "st_statusCode (sendRequest env s) =
           Some (if js_includes (err_message e) ''CORS'' then 0 else 400)"
    and "st_duration (sendRequest env s) = Some (Math_round (perf_failed env - perf_start env))"
  using assms
  by (simp_all add: sendRequest_def Let_def storage_save save_unfold loadHistory_def)


lemma sendRequest1_failure:
  assumes "tryRequest env (st_method s) (st_url s) (st_headers s) (st_body s) = (calls, Inl e)"
  shows "st_storage (sendRequest1 env s) =
           setItem (st_storage s) (''request:'' @ String_of (Date_now env))
             (JsonEntry
               \<lparr>method = st_method s, url = st_url s,
                headers = HeadersObject
                  (case JSON_parse env (st_headers s) of None \<Rightarrow> JObject [] | Some v \<Rightarrow> v),
                body = st_body s, response = errorResponse env e, statusCode = 400,
                duration = Some (Math_round (perf_failed env - perf_start env)),
                timestamp = Some (new_Date env), entry_id = Some (Date_now env)\<rparr>)"
    and "st_requests (sendRequest1 env s) = st_requests s @ calls"
    and "st_statusCode (sendRequest1 env s) =
           Some (if js_includes (err_message e) ''CORS'' \<or> err_name e = ''TypeError''
                 then 0 else 400)"
    and "st_duration (sendRequest1 env s) = Some (Math_round (perf_failed env - perf_start env))"
  using assms
  by (simp_all add: sendRequest1_def Let_def storage_save1 save1_unfold loadHistory1_def
      loadStats_def split: prod.splits)

lemma validationError_not_network:
  "\<not> js_includes (err_message (validationError env s)) ''CORS''"
  "err_name (validationError env s) \<noteq> ''TypeError''"
  by (simp_all add: validationError_def new_Error_def startsWith_def)

lemma length_setItem:
  "k \<notin> fst ` set st \<Longrightarrow> length (setItem st k v) = length st + 1"
  by (induction st k v rule: setItem.induct) auto

text \<open>
  Claim C5. When one of the checks of \<open>sendRequest\<close> fails, \<open>fetch\<close> is not called, and
  the store receives one record, under the key \<open>request:now\<close>: the entry of the request
  with status code 400, the error of the failing check as response, and the time elapsed
  between the start and the failure as duration. The status shown is 400 too. This holds
  in both files.
\<close>

theorem validation_failure_recorded:
  fixes s :: "page_result client" and s1 :: "page_result1 client"
  assumes "validationFails env s" and "validationFails env s1"
  shows "st_requests (sendRequest env s) = st_requests s \<and>
         st_storage (sendRequest env s) =
           setItem (st_storage s) (''request:'' @ String_of (Date_now env))
             (JsonEntry
               \<lparr>method = st_method s, url = st_url s, headers = HeadersText (st_headers s),
                body = st_body s, response = errorResponse env (validationError env s),
                statusCode = 400,
                duration = Some (Math_round (perf_failed env - perf_start env)),
                timestamp = Some (new_Date env), entry_id = Some (Date_now env)\<rparr>) \<and>
         (''request:'' @ String_of (Date_now env) \<notin> fst ` set (st_storage s) \<longrightarrow>
            length (st_storage (sendRequest env s)) = length (st_storage s) + 1) \<and>
         st_statusCode (sendRequest env s) = Some 400 \<and>
         st_duration (sendRequest env s) = Some (Math_round (perf_failed env - perf_start env)) \<and>
         st_requests (sendRequest1 env s1) = st_requests s1 \<and>
         st_storage (sendRequest1 env s1) =
           setItem (st_storage s1) (''request:'' @ String_of (Date_now env))
             (JsonEntry
               \<lparr>method = st_method s1, url = st_url s1,
                headers = HeadersObject
                  (case JSON_parse env (st_headers s1) of None \<Rightarrow> JObject [] | Some v \<Rightarrow> v),
                body = st_body s1, response = errorResponse env (validationError env s1),
                statusCode = 400,
                duration = Some (Math_round (perf_failed env - perf_start env)),
                timestamp = Some (new_Date env), entry_id = Some (Date_now env)\<rparr>) \<and>
         (''request:'' @ String_of (Date_now env) \<notin> fst ` set (st_storage s1) \<longrightarrow>
            length (st_storage (sendRequest1 env s1)) = length (st_storage s1) + 1) \<and>
         st_statusCode (sendRequest1 env s1) = Some 400 \<and>
         st_duration (sendRequest1 env s1) = Some (Math_round (perf_failed env - perf_start env))"
proof -
  note f = sendRequest_failure[OF tryRequest_invalid[OF assms(1)]]
  note f1 = sendRequest1_failure[OF tryRequest_invalid[OF assms(2)]]
  have len: "length (st_storage (sendRequest env s)) = length (st_storage s) + 1"
    if "''request:'' @ String_of (Date_now env) \<notin> fst ` set (st_storage s)"
    unfolding f(1) using that by (rule length_setItem)
  have len1: "length (st_storage (sendRequest1 env s1)) = length (st_storage s1) + 1"
    if "''request:'' @ String_of (Date_now env) \<notin> fst ` set (st_storage s1)"
    unfolding f1(1) using that by (rule length_setItem)
  have c: "st_statusCode (sendRequest env s) = Some 400"
    unfolding f(3) using validationError_not_network(1)[of env s] by simp
  have c1: "st_statusCode (sendRequest1 env s1) = Some 400"
    unfolding f1(3) using validationError_not_network[of env s1] by simp
  have r: "st_requests (sendRequest env s) = st_requests s"
    unfolding f(2) by simp
  have r1: "st_requests (sendRequest1 env s1) = st_requests s1"
    unfolding f1(2) by simp
  show ?thesis
    apply (intro conjI impI)
             apply (rule r)
            apply (rule f(1))
           apply (erule len)
          apply (rule c)
         apply (rule f(4))
        apply (rule r1)
       apply (rule f1(1))
      apply (erule len1)
     apply (rule c1)
    apply (rule f1(4))
    done
qed

lemma String_of_4000: "String_of 4000 = ''4000''"
  by code_simp

lemma elapsed_offline: "Math_round (perf_failed offlineEnv - perf_start offlineEnv) = 250"
  by (simp add: offlineEnv_def Math_round_def)

lemma bad_headers_fail: "validationFails offlineEnv (initial\<lparr>st_headers := ''{bad json''\<rparr>)"
  by (simp add: validationFails_def offlineEnv_def initial_def)

lemma bad_headers_error:
  "validationError offlineEnv (initial\<lparr>st_headers := ''{bad json''\<rparr>) = new_Error ''Invalid JSON in headers''"
  by (simp add: validationError_def offlineEnv_def initial_def)

theorem validation_failure_recorded_witness:
  "validationFails offlineEnv (initial\<lparr>st_headers := ''{bad json''\<rparr>) \<and>
   validationError offlineEnv (initial\<lparr>st_headers := ''{bad json''\<rparr> :: page_result client) =
     new_Error ''Invalid JSON in headers'' \<and>
   ''request:'' @ String_of (Date_now offlineEnv) \<notin>
     fst ` set (st_storage (initial\<lparr>st_headers := ''{bad json''\<rparr> :: page_result client)) \<and>
   st_requests (sendRequest offlineEnv (initial\<lparr>st_headers := ''{bad json''\<rparr>)) = [] \<and>
   st_statusCode (sendRequest offlineEnv (initial\<lparr>st_headers := ''{bad json''\<rparr>)) = Some 400 \<and>
   st_duration (sendRequest offlineEnv (initial\<lparr>st_headers := ''{bad json''\<rparr>)) = Some 250 \<and>
   length (st_storage (sendRequest offlineEnv (initial\<lparr>st_headers := ''{bad json''\<rparr>))) = 1 \<and>
   map statusCode (parsedEntries (st_storage (sendRequest offlineEnv (initial\<lparr>st_headers := ''{bad json''\<rparr>))))
     = [400] \<and>
   st_requests (sendRequest1 offlineEnv (initial\<lparr>st_headers := ''{bad json''\<rparr>)) = [] \<and>
   map statusCode (parsedEntries (st_storage (sendRequest1 offlineEnv (initial\<lparr>st_headers := ''{bad json''\<rparr>))))
     = [400]"
proof -
  let ?s = "initial\<lparr>st_headers := ''{bad json''\<rparr> :: page_result client"
  let ?s1 = "initial\<lparr>st_headers := ''{bad json''\<rparr> :: page_result1 client"
  note c = validation_failure_recorded[OF bad_headers_fail bad_headers_fail]
  have now: "Date_now offlineEnv = 4000" by (simp add: offlineEnv_def)
  have empty: "st_storage ?s = []" "st_requests ?s = []" "st_storage ?s1 = []" "st_requests ?s1 = []"
    by (simp_all add: initial_def)
  have fresh: "''request:'' @ String_of (Date_now offlineEnv) \<notin> fst ` set (st_storage ?s)"
    by (simp add: empty)
  have st: "st_storage (sendRequest offlineEnv ?s) =
      [(''request:4000'', JsonEntry
         \<lparr>method = st_method ?s, url = st_url ?s, headers = HeadersText (st_headers ?s),
          body = st_body ?s, response = errorResponse offlineEnv (validationError offlineEnv ?s),
          statusCode = 400, duration = Some 250, timestamp = Some (new_Date offlineEnv),
          entry_id = Some 4000\<rparr>)]"
    using c by (simp add: empty now String_of_4000 elapsed_offline)
  have st1: "st_storage (sendRequest1 offlineEnv ?s1) =
      [(''request:4000'', JsonEntry
         \<lparr>method = st_method ?s1, url = st_url ?s1,
          headers = HeadersObject
            (case JSON_parse offlineEnv (st_headers ?s1) of None \<Rightarrow> JObject [] | Some v \<Rightarrow> v),
          body = st_body ?s1, response = errorResponse offlineEnv (validationError offlineEnv ?s1),
          statusCode = 400, duration = Some 250, timestamp = Some (new_Date offlineEnv),
          entry_id = Some 4000\<rparr>)]"
    using c by (simp add: empty now String_of_4000 elapsed_offline)
  have p: "map statusCode (parsedEntries (st_storage (sendRequest offlineEnv ?s))) = [400]"
    unfolding st
    by (simp add: parsedEntries_def storage_list_def startsWith_def non_null_def readKey_def getItem_def)
  have p1: "map statusCode (parsedEntries (st_storage (sendRequest1 offlineEnv ?s1))) = [400]"
    unfolding st1
    by (simp add: parsedEntries_def storage_list_def startsWith_def non_null_def readKey_def getItem_def)
  have l: "length (st_storage (sendRequest offlineEnv ?s)) = 1"
    unfolding st by simp
  have r: "st_requests (sendRequest offlineEnv ?s) = []"
    "st_statusCode (sendRequest offlineEnv ?s) = Some 400"
    "st_duration (sendRequest offlineEnv ?s) = Some 250"
    "st_requests (sendRequest1 offlineEnv ?s1) = []"
    using c by (simp_all add: empty elapsed_offline)
  show ?thesis
    using bad_headers_fail bad_headers_error fresh r l p p1 by blast
qed

lemma offline_fetch_fails:
  "tryRequest offlineEnv (st_method (initial :: 'c client)) (st_url (initial :: 'c client))
      (st_headers (initial :: 'c client)) (st_body (initial :: 'c client)) =
     ([\<lparr>fc_method = GET, fc_url = ''https://jsonplaceholder.typicode.com/posts/1'',
        fc_headers = JObject [(''Content-Type'', JString ''application/json'')],
        fc_body = None\<rparr>],
      Inl \<lparr>err_name = ''TypeError'', err_message = ''Failed to fetch''\<rparr>)"
  by (simp add: tryRequest_def offlineEnv_def initial_def trim_def is_space_def startsWith_def
      bodyMethods_def)

text \<open>
  Claim C4 at a failing input. With the network down \<open>fetch\<close> rejects with a
  \<open>TypeError\<close>; no response is received. \<open>Api1.jsx\<close> shows status 0, \<open>Api.jsx\<close> shows 400
  (the message does not mention CORS), and both record the entry with status code 400,
  where the claim has 0.
\<close>

theorem network_failure_recorded_as_400:
  "length (st_requests (sendRequest1 offlineEnv initial)) = 1 \<and>
   st_statusCode (sendRequest1 offlineEnv initial) = Some 0 \<and>
   map statusCode (parsedEntries (st_storage (sendRequest1 offlineEnv initial))) = [400] \<and>
   length (st_requests (sendRequest offlineEnv initial)) = 1 \<and>
   st_statusCode (sendRequest offlineEnv initial) = Some 400 \<and>
   map statusCode (parsedEntries (st_storage (sendRequest offlineEnv initial))) = [400]"
proof -
  note f = sendRequest_failure[OF offline_fetch_fails]
  note f1 = sendRequest1_failure[OF offline_fetch_fails]
  have empty: "st_storage (initial :: 'c client) = []" "st_requests (initial :: 'c client) = []"
    by (simp_all add: initial_def)
  have now: "Date_now offlineEnv = 4000" by (simp add: offlineEnv_def)
  have p: "map statusCode (parsedEntries (st_storage (sendRequest offlineEnv initial))) = [400]"
    unfolding f(1) empty now String_of_4000
    by (simp add: parsedEntries_def storage_list_def startsWith_def non_null_def readKey_def getItem_def)
  have p1: "map statusCode (parsedEntries (st_storage (sendRequest1 offlineEnv initial))) = [400]"
    unfolding f1(1) empty now String_of_4000
    by (simp add: parsedEntries_def storage_list_def startsWith_def non_null_def readKey_def getItem_def)
  have c: "st_statusCode (sendRequest offlineEnv initial) = Some 400"
    unfolding f(3) by (simp add: startsWith_def)
  have c1: "st_statusCode (sendRequest1 offlineEnv initial) = Some 0"
    unfolding f1(3) by simp
  have r: "length (st_requests (sendRequest offlineEnv initial)) = 1"
    "length (st_requests (sendRequest1 offlineEnv initial)) = 1"
    unfolding f(2) f1(2) empty by simp_all
  show ?thesis using p p1 c c1 r by blast
qed

section \<open>Scrolling, and the dates in the store\<close>

text \<open>
  Scrolling: page 1 loaded directly and the pages 2 to \<open>n\<close> appended one after the other
  show the first \<open>20 * n\<close> entries of the sorted history.
\<close>

lemma scroll_accumulates:
  assumes "cacheFresh s" and "0 < n"
  shows "st_history (foldl (\<lambda>s p. loadHistory (int p) True s) (loadHistory 1 False s) [2..<Suc n])
           = take (20 * n) (sort_by byTimestamp (parsedEntries (st_storage s)))
         \<and> cacheFresh (foldl (\<lambda>s p. loadHistory (int p) True s) (loadHistory 1 False s) [2..<Suc n])
         \<and> st_storage (foldl (\<lambda>s p. loadHistory (int p) True s) (loadHistory 1 False s) [2..<Suc n])
           = st_storage s"
  using assms(2)
proof (induction n)
  case 0
  then show ?case by simp
next
  case (Suc n)
  let ?srt = "sort_by byTimestamp (parsedEntries (st_storage s))"
  show ?case
  proof (cases "n = 0")
    case True
    then show ?thesis
      using loadHistory_page[OF assms(1), of 1] loadHistory_fresh(4)[OF assms(1), of 1 False]
      by (simp add: storage_loadHistory)
  next
    case False
    let ?prev = "foldl (\<lambda>s p. loadHistory (int p) True s) (loadHistory 1 False s) [2..<Suc n]"
    from False Suc.IH have h: "st_history ?prev = take (20 * n) ?srt"
      and f: "cacheFresh ?prev" and st: "st_storage ?prev = st_storage s"
      by simp_all
    have step: "foldl (\<lambda>s p. loadHistory (int p) True s) (loadHistory 1 False s) [2..<Suc (Suc n)]
        = loadHistory (int (Suc n)) True ?prev"
      using False by (simp del: upt_Suc add: upt_Suc_append)
    have big: "1 < int (Suc n)" using False by simp
    have "st_history (loadHistory (int (Suc n)) True ?prev)
        = st_history ?prev @ items (computePage (st_storage ?prev) (int (Suc n)))"
      unfolding loadHistory_fresh(1)[OF f] using big by (simp only: simp_thms if_True)
    also have "\<dots> = take (20 * n) ?srt @ take 20 (drop (20 * n) ?srt)"
      unfolding h st by (simp add: items_computePage)
    also have "\<dots> = take (20 * n + 20) ?srt"
      by (simp only: take_add)
    also have "20 * n + 20 = 20 * Suc n"
      by simp
    finally have hist: "st_history (loadHistory (int (Suc n)) True ?prev) = take (20 * Suc n) ?srt" .
    show ?thesis
      unfolding step
      by (intro conjI hist loadHistory_fresh(4)[OF f]) (simp only: storage_loadHistory st)
  qed
qed

text \<open>
  The entries that the client writes carry the date of \<open>new Date()\<close>, so a store that it
  alone has filled holds valid dates only, as the ordering of page 1 requires.
\<close>

lemma storeDated_setItem:
  "storeDated st \<Longrightarrow> dated v \<Longrightarrow> storeDated (setItem st k v)"
  by (induction st k v rule: setItem.induct) (auto simp: storeDated_def)

lemma storeDated_removeItem: "storeDated st \<Longrightarrow> storeDated (removeItem st k)"
  by (simp add: storeDated_def removeItem_def list_all_iff)

lemma storeDated_filter: "storeDated st \<Longrightarrow> storeDated (filter P st)"
  by (simp add: storeDated_def list_all_iff)

lemma storeDated_parsedEntries:
  assumes "storeDated st"
  shows "\<forall>e \<in> set (parsedEntries st). timestamp e \<noteq> None"
proof
  fix e
  assume "e \<in> set (parsedEntries st)"
  then obtain k where "readKey st k = Some e"
    by (auto simp: parsedEntries_def non_null_def)
  then have "map_of st k = Some (JsonEntry e)"
    by (cases "map_of st k"; cases "the (map_of st k)") (auto simp: readKey_def getItem_def)
  then have "(k, JsonEntry e) \<in> set st" by (rule map_of_SomeD)
  with assms have "dated (JsonEntry e)"
    by (auto simp: storeDated_def list_all_iff)
  then show "timestamp e \<noteq> None" by simp
qed

lemma sendRequest_writes_dated:
  "\<exists>e. st_storage (sendRequest env s) =
         setItem (st_storage s) (''request:'' @ String_of (Date_now env)) (JsonEntry e)
       \<and> timestamp e = Some (new_Date env)"
  by (cases "tryRequest env (st_method s) (st_url s) (st_headers s) (st_body s)")
     (auto simp: sendRequest_def Let_def storage_save split: sum.splits)

lemma sendRequest1_writes_dated:
  "\<exists>e. st_storage (sendRequest1 env s) =
         setItem (st_storage s) (''request:'' @ String_of (Date_now env)) (JsonEntry e)
       \<and> timestamp e = Some (new_Date env)"
  by (cases "tryRequest env (st_method s) (st_url s) (st_headers s) (st_body s)")
     (auto simp: sendRequest1_def Let_def storage_save1 split: sum.splits)

lemma storeDated_preserved:
  assumes "storeDated (st_storage s)" and "storeDated (st_storage s1)"
  shows "storeDated (st_storage (sendRequest env s))"
    and "storeDated (st_storage (deleteHistoryItem i s))"
    and "storeDated (st_storage (clearAllHistory s))"
    and "storeDated (st_storage (sendRequest1 env s1))"
    and "storeDated (st_storage (deleteHistoryItem1 i s1))"
    and "storeDated (st_storage (clearAllHistory1 s1))"
proof -
  show "storeDated (st_storage (sendRequest env s))"
    using sendRequest_writes_dated[of env s] assms(1) by (auto intro!: storeDated_setItem)
  show "storeDated (st_storage (sendRequest1 env s1))"
    using sendRequest1_writes_dated[of env s1] assms(2) by (auto intro!: storeDated_setItem)
  show "storeDated (st_storage (deleteHistoryItem i s))"
    unfolding storage_delete using assms(1) by (rule storeDated_removeItem)
  show "storeDated (st_storage (deleteHistoryItem1 i s1))"
    unfolding storage_delete1 using assms(2) by (rule storeDated_removeItem)
  show "storeDated (st_storage (clearAllHistory s))"
    unfolding storage_clearAll using assms(1) by (rule storeDated_filter)
  show "storeDated (st_storage (clearAllHistory1 s1))"
    unfolding storage_clearAll1 using assms(2) by (rule storeDated_filter)
qed

end
